theory Spec2Isabelle
  imports Main "HOL-Library.AList" "HOL-Library.Sublist"
begin

text \<open>
  A model of \<^verbatim>\<open>autoexec.py\<close>: the manager that reads service definitions, runs one
  Supervisor process per service (clone, poll for updates, launch and relaunch the
  worker), and serves the status of the services over HTTP.

  Every function of the script is a function here, under its own name. What a function
  finds outside its process (files, the results of commands, the clock, whether a
  process has exited) is an argument; what it does to the outside (commands, signals,
  log records, sleeps) is recorded as a list of events in program order; an exception
  is a value. The two endless loops are modelled by their bodies: \<open>main_cycle\<close> is one
  cycle of \<^verbatim>\<open>main\<close> and \<open>loop_iteration\<close> is one pass of \<^verbatim>\<open>manage_service\<close>.
  Not modelled: the creation of the \<^verbatim>\<open>repos\<close> directory, the set-up of the loggers and
  managers, the transport of the HTTP server, and the shutdown of \<^verbatim>\<open>main\<close> on
  \<^verbatim>\<open>KeyboardInterrupt\<close>.
\<close>

section \<open>Configuration\<close>

text \<open>The module-level constants of \<^verbatim>\<open>autoexec.py\<close>.\<close>

definition SERVICES_FILE :: string where
  "SERVICES_FILE = ''services.txt''"

definition REPOS_DIR :: string where
  "REPOS_DIR = ''repos''"

definition MAIN_LOOP_SLEEP :: nat where
  "MAIN_LOOP_SLEEP = 5"

definition GIT_CHECK_INTERVAL :: nat where
  "GIT_CHECK_INTERVAL = 30"

definition API_HOST :: string where
  "API_HOST = ''localhost''"

definition API_PORT :: nat where
  "API_PORT = 8000"

definition MAX_LOG_ENTRIES :: nat where
  "MAX_LOG_ENTRIES = 20"

section \<open>The shared log buffer: \<^verbatim>\<open>SharedLogHandler.emit\<close>\<close>

text \<open>
  \<^verbatim>\<open>
  def emit(self, record):
      log_entry = self.format(record)
      self.shared_list.append(log_entry)
      while len(self.shared_list) > MAX_LOG_ENTRIES:
          self.shared_list.pop(0)
  \<close>
  The \<^verbatim>\<open>while\<close> loop is \<open>trim\<close>: \<^verbatim>\<open>pop(0)\<close> removes the first element of a
  list that is not empty here (its length exceeds the capacity). \<open>emit\<close> takes the
  formatted entry; the formatter is applied by the caller.
\<close>

function trim :: "string list \<Rightarrow> string list" where
  "trim shared_list =
     (if length shared_list > MAX_LOG_ENTRIES then trim (tl shared_list) else shared_list)"
  by pat_completeness auto
termination
  by (relation "measure length") auto

declare trim.simps [simp del]

definition emit :: "string list \<Rightarrow> string \<Rightarrow> string list" where
  "emit shared_list log_entry = trim (shared_list @ [log_entry])"

section \<open>Python strings and paths\<close>

text \<open>
  Strings are byte strings here; \<open>is_space\<close> lists the ASCII characters that
  \<^verbatim>\<open>str.strip()\<close> and \<^verbatim>\<open>str.split()\<close> treat as whitespace.
\<close>

definition is_space :: "char \<Rightarrow> bool" where
  "is_space c = (c \<in> {CHR '' '', CHR 0x09, CHR 0x0A, CHR 0x0B, CHR 0x0C, CHR 0x0D,
                        CHR 0x1C, CHR 0x1D, CHR 0x1E, CHR 0x1F})"

definition strip :: "string \<Rightarrow> string" where
  "strip s = rev (dropWhile is_space (rev (dropWhile is_space s)))"

fun split_from :: "string \<Rightarrow> string \<Rightarrow> string list" where
  "split_from w [] = (if w = [] then [] else [w])"
| "split_from w (c # cs) =
     (if is_space c then (if w = [] then split_from [] cs else w # split_from [] cs)
      else split_from (w @ [c]) cs)"

definition split :: "string \<Rightarrow> string list" where
  \<comment> \<open>\<^verbatim>\<open>line.split()\<close>: the maximal runs of non-whitespace characters\<close>
  "split s = split_from [] s"

definition startswith :: "string \<Rightarrow> string \<Rightarrow> bool" where
  "startswith s start = (take (length start) s = start)"

fun join_with :: "string \<Rightarrow> string list \<Rightarrow> string" where
  "join_with sep [] = []"
| "join_with sep [w] = w"
| "join_with sep (w # ws) = w @ sep @ join_with sep ws"

definition basename :: "string \<Rightarrow> string" where
  \<comment> \<open>\<^verbatim>\<open>os.path.basename\<close> (POSIX): what follows the last slash\<close>
  "basename p = rev (takeWhile (\<lambda>c. c \<noteq> CHR ''/'') (rev p))"

definition splitext_root :: "string \<Rightarrow> string" where
  \<comment> \<open>\<^verbatim>\<open>os.path.splitext(p)[0]\<close> (POSIX): the last dot of the last component splits,
      unless only dots precede it in that component\<close>
  "splitext_root p =
     (let base = basename p;
          dir = take (length p - length base) p
      in if CHR ''.'' \<in> set base then
           (let root = rev (tl (dropWhile (\<lambda>c. c \<noteq> CHR ''.'') (rev base)))
            in if \<exists>c \<in> set root. c \<noteq> CHR ''.'' then dir @ root else p)
         else p)"

definition path_join :: "string \<Rightarrow> string \<Rightarrow> string" where
  \<comment> \<open>\<^verbatim>\<open>os.path.join(a, b)\<close> (POSIX) for two components\<close>
  "path_join a b =
     (if startswith b ''/'' then b
      else if a = [] \<or> last a = CHR ''/'' then a @ b
      else a @ ''/'' @ b)"

text \<open>
  Two library functions are parameters of the model: \<^verbatim>\<open>urlparse(url).path\<close> and
  \<^verbatim>\<open>os.path.abspath\<close> (which depends on the working directory).
\<close>

record pylib =
  urlparse_path :: "string \<Rightarrow> string"
  abspath :: "string \<Rightarrow> string"

section \<open>Events, exceptions and the command executor\<close>

text \<open>
  What a process does to the outside world is recorded as a list of events, in program
  order. \<open>Log\<close> is a record of the root logger (level, message), written to standard
  output by \<^verbatim>\<open>logging.basicConfig\<close>; records below level INFO are dropped and
  are not modelled. \<open>Command\<close> is a call of \<^verbatim>\<open>subprocess.run\<close> (command, working
  directory). \<open>Terminate\<close>, \<open>Join\<close> (with its timeout) and \<open>Wait\<close> are the calls
  of these names on a process, named by its id. \<open>Start\<close> is the start of a
  \<^verbatim>\<open>multiprocessing.Process\<close> running \<^verbatim>\<open>manage_service\<close>: its id, its name and the
  url, branch and path of its service configuration. \<open>Popen\<close> is the launch of a
  worker: its id, the command and the working directory.
\<close>

datatype event =
    Log string string
  | Command "string list" string
  | Terminate nat
  | Join nat nat
  | Wait nat
  | Start nat string string string string
  | Popen nat "string list" string
  | Sleep nat
  | SetStatus string

datatype exn = KeyError string | IndexError | TypeError string | OSError | ErrorInCommand

text \<open>
  What \<^verbatim>\<open>subprocess.run(..., check=True, capture_output=True)\<close> does: it returns
  the captured standard output, raises \<^verbatim>\<open>CalledProcessError\<close> (non-zero exit, with
  the captured standard error), raises \<^verbatim>\<open>FileNotFoundError\<close>, or raises something
  else (for instance \<^verbatim>\<open>PermissionError\<close>), which \<open>run_command\<close> does not catch.
\<close>

datatype run_result =
    Completed string
  | CalledProcessError string
  | FileNotFoundError
  | OtherError

datatype 'a outcome = Returns 'a | Raises exn

definition run_command :: "string list \<Rightarrow> string \<Rightarrow> run_result \<Rightarrow> event list \<times> string option outcome" where
  "run_command command cwd r =
     (case r of
        Completed out \<Rightarrow> ([Command command cwd], Returns (Some (strip out)))
      | CalledProcessError err \<Rightarrow>
          ([Command command cwd,
            Log ''ERROR'' (''Command failed: '' @ join_with '' '' command @ [CHR 0x0A] @
                           ''Error: '' @ strip err)],
           Returns None)
      | FileNotFoundError \<Rightarrow>
          (case command of
             [] \<Rightarrow> ([Command command cwd], Raises IndexError)
           | c # _ \<Rightarrow>
               ([Command command cwd,
                 Log ''ERROR'' (''Command not found: '' @ c @
                                ''. Is it installed and in your PATH?'')],
                Returns None))
      | OtherError \<Rightarrow> ([Command command cwd], Raises ErrorInCommand))"

section \<open>The definitions file: \<^verbatim>\<open>parse_services_file\<close>\<close>

record service_config =
  cfg_url :: string
  cfg_branch :: string
  cfg_path :: string

definition get_repo_name_from_url :: "pylib \<Rightarrow> string \<Rightarrow> string" where
  "get_repo_name_from_url lib u =
     (let p = urlparse_path lib u;
          repo_name = splitext_root (basename p)
      in if repo_name \<noteq> [] then repo_name else ''unknown_repo'')"

text \<open>
  The file as \<^verbatim>\<open>parse_services_file\<close> finds it: absent, present but not readable
  (\<^verbatim>\<open>open\<close> raises), or its lines. The result is the dictionary in insertion order:
  a later line with the same path replaces the value and keeps the place, as
  \<open>AList.update\<close> does.
\<close>

datatype file_obs = Missing | Unreadable | Content "string list"

definition parse_line ::
  "pylib \<Rightarrow> string \<Rightarrow> (string \<times> service_config) list \<Rightarrow> exn + (string \<times> service_config) list" where
  "parse_line lib raw_line acc =
     (let line = strip raw_line
      in if line = [] \<or> startswith line ''#'' then Inr acc
         else (let parts = split line
               in case parts of
                    [] \<Rightarrow> Inl IndexError
                  | u # _ \<Rightarrow>
                      (let b = (if length parts > 1 then parts ! 1 else ''main'');
                           dir_name = (if length parts > 2 then parts ! 2
                                       else get_repo_name_from_url lib u);
                           rp = abspath lib (path_join REPOS_DIR dir_name)
                       in Inr (AList.update rp
                                 \<lparr>cfg_url = u, cfg_branch = b, cfg_path = rp\<rparr> acc))))"

fun parse_lines ::
  "pylib \<Rightarrow> string list \<Rightarrow> (string \<times> service_config) list \<Rightarrow> exn + (string \<times> service_config) list" where
  "parse_lines lib [] acc = Inr acc"
| "parse_lines lib (l # ls) acc =
     (case parse_line lib l acc of
        Inl e \<Rightarrow> Inl e
      | Inr acc' \<Rightarrow> parse_lines lib ls acc')"

definition parse_services_file ::
  "pylib \<Rightarrow> file_obs \<Rightarrow> event list \<times> (exn + (string \<times> service_config) list)" where
  "parse_services_file lib f =
     (case f of
        Missing \<Rightarrow>
          ([Log ''WARNING'' ([CHR 0x27] @ SERVICES_FILE @ [CHR 0x27] @
                             '' not found. No services to manage.'')],
           Inr [])
      | Unreadable \<Rightarrow> ([], Inl OSError)
      | Content ls \<Rightarrow> ([], parse_lines lib ls []))"

section \<open>The Reconciler: \<^verbatim>\<open>main\<close>\<close>

text \<open>
  A \<^verbatim>\<open>multiprocessing.Process\<close> handle is its process id and its name.

  The state of \<^verbatim>\<open>main\<close>:
  \<^item> \<open>services\<close> is \<^verbatim>\<open>shared_status["services"]\<close>, the Status Store, in insertion
    order. Each value is the proxy of the status dictionary that a Supervisor created
    and stored under its path (\<^verbatim>\<open>shared_status_dict[repo_path] = service_status\<close>);
    the proxy is named by the process id of that Supervisor.
  \<^item> \<open>managed_processes\<close> is the local table of started processes, in insertion order.
  \<^item> \<open>alive\<close> is the operating system's side: the ids of the processes that have not
    exited. \<open>spawned\<close> records what each started process runs
    (\<^verbatim>\<open>target=manage_service\<close> with its service configuration), \<open>next_pid\<close> is the id
    the next started process gets.
  \<^item> \<open>events\<close> is what this process has done so far.
\<close>

record process =
  proc_pid :: nat
  proc_name :: string

record manager_state =
  manager_pid :: nat
  services :: "(string \<times> nat) list"
  managed_processes :: "(string \<times> process) list"
  alive :: "nat set"
  spawned :: "(nat \<times> service_config) list"
  next_pid :: nat
  events :: "event list"

definition emit_event :: "event \<Rightarrow> manager_state \<Rightarrow> manager_state" where
  "emit_event e st = st\<lparr>events := events st @ [e]\<rparr>"

definition is_alive :: "process \<Rightarrow> manager_state \<Rightarrow> bool" where
  "is_alive pr st = (proc_pid pr \<in> alive st)"

text \<open>
  \<^verbatim>\<open>Process(target=manage_service, args=(service_config, ...), name=name).start()\<close>:
  a new process, alive, running \<^verbatim>\<open>manage_service\<close> for that configuration.
\<close>

definition start_process :: "service_config \<Rightarrow> string \<Rightarrow> manager_state \<Rightarrow> process \<times> manager_state" where
  "start_process service_config name st =
     (let new_pid = next_pid st
      in (\<lparr>proc_pid = new_pid, proc_name = name\<rparr>,
          st\<lparr>alive := insert new_pid (alive st),
             spawned := spawned st @ [(new_pid, service_config)],
             next_pid := Suc new_pid,
             events := events st @ [Start new_pid name (cfg_url service_config)
                                      (cfg_branch service_config) (cfg_path service_config)]\<rparr>))"

text \<open>
  \<^verbatim>\<open>process.terminate(); process.join(timeout=5)\<close>. \<open>terminate\<close> sends SIGTERM to that
  one process (its descendants are not signalled); \<open>join\<close> waits up to five seconds.
  Whether the process has exited by then is the environment's: \<open>exits_in_time pid\<close>.
\<close>

definition terminate_and_join :: "(nat \<Rightarrow> bool) \<Rightarrow> process \<Rightarrow> manager_state \<Rightarrow> manager_state" where
  "terminate_and_join exits_in_time pr st =
     (let st1 = emit_event (Join (proc_pid pr) 5) (emit_event (Terminate (proc_pid pr)) st)
      in if exits_in_time (proc_pid pr) then st1\<lparr>alive := alive st1 - {proc_pid pr}\<rparr> else st1)"

text \<open>
  The body of the first loop of a cycle (``Stop services removed from config''):
  \<^verbatim>\<open>
  logging.info(f"Service for {path} removed from config. Stopping...")
  if path in managed_processes:
      process = managed_processes.pop(path)
      if process.is_alive():
          process.terminate()
          process.join(timeout=5)
  if path in shared_status["services"]:
      del shared_status["services"][path]
  logging.info(f"Process for {path} stopped.")
  \<close>
\<close>

definition stop_service :: "(nat \<Rightarrow> bool) \<Rightarrow> string \<Rightarrow> manager_state \<Rightarrow> manager_state" where
  "stop_service exits_in_time p st =
     (let st1 = emit_event (Log ''INFO'' (''Service for '' @ p @ '' removed from config. Stopping...'')) st;
          st2 = (case map_of (managed_processes st1) p of
                   None \<Rightarrow> st1
                 | Some pr \<Rightarrow>
                     (let st' = st1\<lparr>managed_processes := AList.delete p (managed_processes st1)\<rparr>
                      in if is_alive pr st' then terminate_and_join exits_in_time pr st' else st'));
          st3 = (if p \<in> set (map fst (services st2))
                 then st2\<lparr>services := AList.delete p (services st2)\<rparr> else st2)
      in emit_event (Log ''INFO'' (''Process for '' @ p @ '' stopped.'')) st3)"

text \<open>
  The body of the second loop (``Start new services''). \<open>p\<close> comes from
  \<open>desired_paths\<close>, so the lookup \<^verbatim>\<open>desired_services[path]\<close> finds it; the
  \<open>None\<close> branch is the \<^verbatim>\<open>KeyError\<close> Python would raise otherwise.
\<close>

definition start_service ::
  "(string \<times> service_config) list \<Rightarrow> string \<Rightarrow> manager_state \<Rightarrow> exn option \<times> manager_state" where
  "start_service desired_services p st =
     (let st1 = emit_event (Log ''INFO'' (''New service for '' @ p @ '' found. Starting...'')) st
      in case map_of desired_services p of
           None \<Rightarrow> (Some (KeyError p), st1)
         | Some service_config \<Rightarrow>
             (let (pr, st2) = start_process service_config (basename p) st1
              in (None, st2\<lparr>managed_processes := AList.update p pr (managed_processes st2)\<rparr>)))"

text \<open>A \<^verbatim>\<open>for\<close> loop whose body may raise: the first exception ends it.\<close>

fun for_each :: "('a \<Rightarrow> 's \<Rightarrow> exn option \<times> 's) \<Rightarrow> 'a list \<Rightarrow> 's \<Rightarrow> exn option \<times> 's" where
  "for_each body [] st = (None, st)"
| "for_each body (x # xs) st =
     (case body x st of
        (None, st') \<Rightarrow> for_each body xs st'
      | (Some e, st') \<Rightarrow> (Some e, st'))"

text \<open>
  The body of the third loop (``Health check on processes''), run over the snapshot
  \<^verbatim>\<open>list(managed_processes.items())\<close>:
  \<^verbatim>\<open>
  if path == "_api_server": continue
  if not process.is_alive():
      logging.warning(f"Process for {path} has died unexpectedly. It will be restarted.")
      service_config = desired_services[path]
      new_process = Process(target=manage_service, args=(...), name=process.name)
      new_process.start()
      managed_processes[path] = new_process
  \<close>
\<close>

definition health_check ::
  "(string \<times> service_config) list \<Rightarrow> string \<times> process \<Rightarrow> manager_state \<Rightarrow> exn option \<times> manager_state" where
  "health_check desired_services item st =
     (let (p, pr) = item
      in if p = ''_api_server'' then (None, st)
         else if \<not> is_alive pr st then
           (let st1 = emit_event (Log ''WARNING'' (''Process for '' @ p @
                         '' has died unexpectedly. It will be restarted.'')) st
            in case map_of desired_services p of
                 None \<Rightarrow> (Some (KeyError p), st1)
               | Some service_config \<Rightarrow>
                   (let (new_process, st2) = start_process service_config (proc_name pr) st1
                    in (None, st2\<lparr>managed_processes :=
                                    AList.update p new_process (managed_processes st2)\<rparr>)))
         else (None, st))"

text \<open>
  One cycle of the \<^verbatim>\<open>while True\<close> loop of \<^verbatim>\<open>main\<close>, after the definitions file
  has been parsed. \<^verbatim>\<open>desired_paths\<close> and \<^verbatim>\<open>current_paths\<close> are Python sets; a
  set is iterated in an order of its own, the model takes the order of the keys. The
  bodies for different paths touch different entries, so the order decides only the
  order of the events and which id a started process gets. Processes that exit by
  themselves while the cycle runs are not modelled: \<open>alive\<close> changes only by what the
  cycle does.
\<close>

definition stop_removed ::
  "(nat \<Rightarrow> bool) \<Rightarrow> string list \<Rightarrow> string list \<Rightarrow> manager_state \<Rightarrow> manager_state" where
  "stop_removed exits_in_time current_paths desired_paths st =
     fold (stop_service exits_in_time) [p \<leftarrow> current_paths. p \<notin> set desired_paths] st"

definition reconcile ::
  "(nat \<Rightarrow> bool) \<Rightarrow> (string \<times> service_config) list \<Rightarrow> manager_state \<Rightarrow> exn option \<times> manager_state" where
  "reconcile exits_in_time desired_services st =
     (let desired_paths = remdups (map fst desired_services);
          current_paths = remdups (map fst (services st));
          st1 = stop_removed exits_in_time current_paths desired_paths st
      in case for_each (start_service desired_services)
                [p \<leftarrow> desired_paths. p \<notin> set current_paths] st1 of
           (Some e, st2) \<Rightarrow> (Some e, st2)
         | (None, st2) \<Rightarrow>
             (case for_each (health_check desired_services) (managed_processes st2) st2 of
                (Some e, st3) \<Rightarrow> (Some e, st3)
              | (None, st3) \<Rightarrow> (None, emit_event (Sleep MAIN_LOOP_SLEEP) st3)))"

text \<open>
  A whole cycle: parse the definitions file, then reconcile. An exception leaves the
  loop and ends \<^verbatim>\<open>main\<close>.
\<close>

definition main_cycle ::
  "pylib \<Rightarrow> (nat \<Rightarrow> bool) \<Rightarrow> file_obs \<Rightarrow> manager_state \<Rightarrow> exn option \<times> manager_state" where
  "main_cycle lib exits_in_time f st =
     (let (evs, parsed) = parse_services_file lib f;
          st0 = st\<lparr>events := events st @ evs\<rparr>
      in case parsed of
           Inl e \<Rightarrow> (Some e, st0)
         | Inr desired_services \<Rightarrow> reconcile exits_in_time desired_services st0)"

text \<open>
  The start of \<^verbatim>\<open>main\<close>, up to the loop: it returns at once when
  \<^verbatim>\<open>git --version\<close> fails, and otherwise sets up the shared state and starts the
  process of the status server, entered in the table under \<^verbatim>\<open>"_api_server"\<close>.
\<close>

definition main_start :: "nat \<Rightarrow> run_result \<Rightarrow> manager_state option" where
  "main_start own_pid git_version =
     (let (evs, r) = run_command [''git'', ''--version''] ''.'' git_version;
          evs0 = Log ''INFO'' ''--- AutoExec.py Manager Started ---'' # evs
      in case r of
           Raises e \<Rightarrow> None
         | Returns None \<Rightarrow> None
         | Returns (Some v) \<Rightarrow>
             Some \<lparr>manager_pid = own_pid,
                   services = [],
                   managed_processes =
                     [(''_api_server'', \<lparr>proc_pid = Suc own_pid, proc_name = ''APIServer''\<rparr>)],
                   alive = {own_pid, Suc own_pid},
                   spawned = [],
                   next_pid = Suc (Suc own_pid),
                   events = evs0\<rparr>)"

text \<open>The events of one cycle: what \<open>st'\<close> has recorded beyond \<open>st\<close>.\<close>

definition cycle_events :: "manager_state \<Rightarrow> manager_state \<Rightarrow> event list" where
  "cycle_events st st' = drop (length (events st)) (events st')"

text \<open>
  \<open>is_start_for p\<close> holds of the start of a process that runs \<^verbatim>\<open>manage_service\<close> for
  the path \<open>p\<close>; \<open>quiet_for p st st'\<close> says that \<open>st'\<close> continues \<open>st\<close> with no such
  start.
\<close>

definition is_start_for :: "string \<Rightarrow> event \<Rightarrow> bool" where
  "is_start_for p e = (case e of Start n name u b q \<Rightarrow> q = p | _ \<Rightarrow> False)"

definition quiet_for :: "string \<Rightarrow> manager_state \<Rightarrow> manager_state \<Rightarrow> bool" where
  "quiet_for p st st' =
     (prefix (events st) (events st') \<and> filter (is_start_for p) (cycle_events st st') = [])"

section \<open>The Supervisor: \<^verbatim>\<open>manage_service\<close>\<close>

text \<open>
  The status dictionary of a service. The keys \<^verbatim>\<open>"url"\<close>, \<^verbatim>\<open>"branch"\<close> of the
  dictionary are the fields \<open>url\<close>, \<open>branch\<close>; \<open>logs\<close> is the content of the shared list
  that the dictionary refers to.
\<close>

record service_status =
  status :: string
  url :: string
  branch :: string
  repo_path :: string
  script_to_run :: "string option"
  service_manager_pid :: nat
  script_pid :: "nat option"
  logs :: "string list"

text \<open>
  The local state of a Supervisor process: its status dictionary, the handle of the
  worker it launched (\<^verbatim>\<open>child_process\<close>, named by the worker's process id) and what
  it has done so far.
\<close>

record supervisor =
  service_status :: service_status
  child_process :: "nat option"
  trace :: "event list"

definition do_event :: "event \<Rightarrow> supervisor \<Rightarrow> supervisor" where
  "do_event e s = s\<lparr>trace := trace s @ [e]\<rparr>"

definition set_status :: "string \<Rightarrow> supervisor \<Rightarrow> supervisor" where
  \<comment> \<open>\<^verbatim>\<open>service_status["status"] = v\<close>\<close>
  "set_status v s =
     s\<lparr>service_status := (service_status s)\<lparr>status := v\<rparr>, trace := trace s @ [SetStatus v]\<rparr>"

definition set_script_pid :: "nat option \<Rightarrow> supervisor \<Rightarrow> supervisor" where
  "set_script_pid v s = s\<lparr>service_status := (service_status s)\<lparr>script_pid := v\<rparr>\<rparr>"

definition set_script_to_run :: "string \<Rightarrow> supervisor \<Rightarrow> supervisor" where
  "set_script_to_run v s = s\<lparr>service_status := (service_status s)\<lparr>script_to_run := Some v\<rparr>\<rparr>"

text \<open>
  A record of the service's own logger at level INFO or above: the handler formats it
  as \<^verbatim>\<open>[%(asctime)s] [%(levelname)s] %(message)s\<close> and \<open>emit\<close> puts it in the shared
  list. The logger does not propagate to the root logger. The clock reading is the
  environment's.
\<close>

definition service_log :: "string \<Rightarrow> string \<Rightarrow> string \<Rightarrow> supervisor \<Rightarrow> supervisor" where
  "service_log asctime level msg s =
     s\<lparr>service_status := (service_status s)
          \<lparr>logs := emit (logs (service_status s))
                     (''['' @ asctime @ ''] ['' @ level @ ''] '' @ msg)\<rparr>\<rparr>"

definition sup_run_command ::
  "string list \<Rightarrow> run_result \<Rightarrow> supervisor \<Rightarrow> string option outcome \<times> supervisor" where
  \<comment> \<open>\<^verbatim>\<open>run_command(command, cwd=repo_path)\<close>\<close>
  "sup_run_command command r s =
     (let (evs, res) = run_command command (repo_path (service_status s)) r
      in (res, s\<lparr>trace := trace s @ evs\<rparr>))"

definition sleep :: "nat \<Rightarrow> supervisor \<Rightarrow> supervisor" where
  "sleep n s = do_event (Sleep n) s"

subsection \<open>Start: registration and clone\<close>

text \<open>
  What the start of \<^verbatim>\<open>manage_service\<close> finds: the clock, whether
  \<^verbatim>\<open>repo_path/.git\<close> is a directory, whether \<^verbatim>\<open>os.makedirs\<close> succeeds, and what
  \<^verbatim>\<open>git clone\<close> does.
\<close>

record start_env =
  start_asctime :: string
  git_dir_exists :: bool
  makedirs_ok :: bool
  git_clone :: run_result

text \<open>
  How the start ends: the polling loop is entered, the function returns (so the process
  exits), or an exception that nothing catches ends the process.
\<close>

datatype start_flow = Enters_loop | Returned | Died exn

definition manage_service_start ::
  "start_env \<Rightarrow> service_config \<Rightarrow> nat \<Rightarrow> (string \<times> nat) list \<Rightarrow>
     start_flow \<times> (string \<times> nat) list \<times> supervisor" where
  "manage_service_start env service_config own_pid shared_status_dict =
     (let rp = cfg_path service_config;
          s0 = \<lparr>service_status =
                  \<lparr>status = ''initializing'',
                   url = cfg_url service_config,
                   branch = cfg_branch service_config,
                   repo_path = rp,
                   script_to_run = None,
                   service_manager_pid = own_pid,
                   script_pid = None,
                   logs = []\<rparr>,
                child_process = None,
                trace = [SetStatus ''initializing'']\<rparr>;
          shared' = AList.update rp own_pid shared_status_dict;
          s1 = set_status ''cloning'' s0
      in if \<not> git_dir_exists env then
           (let s2 = service_log (start_asctime env) ''INFO''
                       (''Cloning '' @ cfg_url service_config @ ''...'') s1
            in if \<not> makedirs_ok env then (Died OSError, shared', s2)
               else
                 (case sup_run_command
                         [''git'', ''clone'', ''--branch'', cfg_branch service_config,
                          cfg_url service_config, ''.''] (git_clone env) s2 of
                    (Raises e, s3) \<Rightarrow> (Died e, shared', s3)
                  | (Returns None, s3) \<Rightarrow>
                      (Returned, shared',
                       set_status ''failed''
                         (service_log (start_asctime env) ''ERROR''
                            ''Failed to clone repository. Shutting down service manager.'' s3))
                  | (Returns (Some out), s3) \<Rightarrow> (Enters_loop, shared', s3)))
         else (Enters_loop, shared', s1))"

subsection \<open>One pass of the polling loop\<close>

text \<open>
  What one pass of the \<^verbatim>\<open>while True\<close> loop finds outside the process, in the order
  in which the pass asks: the clock; what \<^verbatim>\<open>git fetch\<close>, \<^verbatim>\<open>git rev-parse HEAD\<close>
  and \<^verbatim>\<open>git rev-parse origin/<branch>\<close> do; whether the worker has exited
  (\<^verbatim>\<open>child_process.poll() is not None\<close>); whether \<^verbatim>\<open>child_process.wait()\<close> returns;
  what \<^verbatim>\<open>git pull\<close> does; whether \<^verbatim>\<open>autoexec.txt\<close> exists and what reading it
  gives (\<open>None\<close>: \<^verbatim>\<open>open\<close> or \<^verbatim>\<open>read\<close> raises); whether the script exists; the
  id of the launched worker (\<open>None\<close>: \<^verbatim>\<open>Popen\<close> raises); \<^verbatim>\<open>sys.executable\<close>; and
  the text of the exception, if one reaches the handler.
\<close>

record poll_env =
  asctime :: string
  git_fetch :: run_result
  rev_parse_head :: run_result
  rev_parse_remote :: run_result
  child_exited :: bool
  wait_returns :: bool
  git_pull :: run_result
  autoexec_exists :: bool
  autoexec_content :: "string option"
  script_exists :: bool
  popen_pid :: "nat option"
  sys_executable :: string
  exception_text :: string

text \<open>
  How a part of the loop body ends: control goes on to the next statement, a
  \<^verbatim>\<open>continue\<close> was executed, an exception was raised, or the process is blocked for
  ever in \<^verbatim>\<open>child_process.wait()\<close>.
\<close>

datatype flow = Proceed | Continue | Raised exn | Blocked

text \<open>
  \<^verbatim>\<open>
  run_command(["git", "fetch"], cwd=repo_path)
  local_hash = run_command(["git", "rev-parse", "HEAD"], cwd=repo_path)
  remote_hash = run_command(["git", "rev-parse", f"origin/{service_config['branch']}"], cwd=repo_path)
  has_updates = local_hash != remote_hash and remote_hash is not None
  \<close>
\<close>

definition check_updates ::
  "poll_env \<Rightarrow> service_config \<Rightarrow> supervisor \<Rightarrow> bool outcome \<times> supervisor" where
  "check_updates env service_config s =
     (case sup_run_command [''git'', ''fetch''] (git_fetch env) s of
        (Raises e, s1) \<Rightarrow> (Raises e, s1)
      | (Returns fetched, s1) \<Rightarrow>
          (case sup_run_command [''git'', ''rev-parse'', ''HEAD''] (rev_parse_head env) s1 of
             (Raises e, s2) \<Rightarrow> (Raises e, s2)
           | (Returns local_hash, s2) \<Rightarrow>
               (case sup_run_command
                       [''git'', ''rev-parse'', ''origin/'' @ cfg_branch service_config]
                       (rev_parse_remote env) s2 of
                  (Raises e, s3) \<Rightarrow> (Raises e, s3)
                | (Returns remote_hash, s3) \<Rightarrow>
                    (Returns (local_hash \<noteq> remote_hash \<and> remote_hash \<noteq> None), s3))))"

text \<open>
  \<^verbatim>\<open>
  if child_process and child_process.poll() is not None:
      service_logger.warning("Script has terminated unexpectedly. Restarting...")
      service_status["status"] = "crashed"
      service_status["script_pid"] = None
      child_process = None
  \<close>
\<close>

definition crash_check :: "poll_env \<Rightarrow> supervisor \<Rightarrow> supervisor" where
  "crash_check env s =
     (case child_process s of
        None \<Rightarrow> s
      | Some c \<Rightarrow>
          if child_exited env then
            (set_script_pid None
               (set_status ''crashed''
                  (service_log (asctime env) ''WARNING''
                     ''Script has terminated unexpectedly. Restarting...'' s)))
              \<lparr>child_process := None\<rparr>
          else s)"

text \<open>The branch \<^verbatim>\<open>if has_updates:\<close> of the loop body.\<close>

definition apply_update :: "poll_env \<Rightarrow> service_config \<Rightarrow> supervisor \<Rightarrow> flow \<times> supervisor" where
  "apply_update env service_config s =
     (let s1 = service_log (asctime env) ''INFO'' ''New updates found. Restarting script.''
                 (set_status ''updating'' s);
          stopped =
            (case child_process s1 of
               None \<Rightarrow> (Proceed, s1)
             | Some c \<Rightarrow>
                 (let s2 = do_event (Terminate c)
                             (service_log (asctime env) ''INFO'' ''Terminating running script...'' s1)
                  in if wait_returns env then
                       (Proceed, (set_script_pid None (do_event (Wait c) s2))\<lparr>child_process := None\<rparr>)
                     else (Blocked, s2)))
      in case stopped of
           (Proceed, s3) \<Rightarrow>
             (case sup_run_command [''git'', ''pull'', ''origin'', cfg_branch service_config]
                     (git_pull env)
                     (service_log (asctime env) ''INFO'' ''Pulling latest changes...'' s3) of
                (Raises e, s4) \<Rightarrow> (Raised e, s4)
              | (Returns None, s4) \<Rightarrow>
                  (Continue,
                   sleep GIT_CHECK_INTERVAL
                     (service_log (asctime env) ''ERROR''
                        ''Failed to pull updates. Retrying later.'' s4))
              | (Returns (Some out), s4) \<Rightarrow> (Proceed, s4))
         | other \<Rightarrow> other)"

text \<open>The branch \<^verbatim>\<open>if not child_process:\<close> of the loop body.\<close>

definition launch :: "poll_env \<Rightarrow> service_config \<Rightarrow> supervisor \<Rightarrow> flow \<times> supervisor" where
  "launch env service_config s =
     (if \<not> autoexec_exists env then
        (Continue,
         sleep GIT_CHECK_INTERVAL
           (service_log (asctime env) ''ERROR''
              ([CHR 0x27] @ ''autoexec.txt'' @ [CHR 0x27] @ '' not found. Cannot start script.'') s))
      else
        (case autoexec_content env of
           None \<Rightarrow> (Raised OSError, s)
         | Some content \<Rightarrow>
             (let script = strip content;
                  s1 = set_script_to_run script s
              in if script = [] \<or> \<not> script_exists env then
                   (Continue,
                    sleep GIT_CHECK_INTERVAL
                      (service_log (asctime env) ''ERROR''
                         (''Script '' @ [CHR 0x27] @ script @ [CHR 0x27] @
                          '' not found or invalid.'') s1))
                 else
                   (let s2 = service_log (asctime env) ''INFO''
                               (''Starting script: python '' @ script) s1
                    in case popen_pid env of
                         None \<Rightarrow> (Raised OSError, s2)
                       | Some new_pid \<Rightarrow>
                           (Proceed,
                            set_script_pid (Some new_pid)
                              (set_status ''running''
                                 ((do_event
                                     (Popen new_pid [sys_executable env, script]
                                        (repo_path (service_status s2))) s2)
                                    \<lparr>child_process := Some new_pid\<rparr>)))))))"

text \<open>
  The \<^verbatim>\<open>try\<close> block of the loop body, and the \<^verbatim>\<open>except Exception\<close> clause:
  \<^verbatim>\<open>
  service_logger.error(f"Unexpected error in service manager: {e}")
  if child_process:
      child_process.terminate()
  service_status["status"] = "failed"
  time.sleep(GIT_CHECK_INTERVAL)
  \<close>
\<close>

definition handle_process ::
  "poll_env \<Rightarrow> service_config \<Rightarrow> bool \<Rightarrow> supervisor \<Rightarrow> flow \<times> supervisor" where
  \<comment> \<open>the part of the body under the comment \<^verbatim>\<open># 3. Handle process execution\<close>\<close>
  "handle_process env service_config has_updates s1 =
     (let s2 = crash_check env s1
      in case (if has_updates then apply_update env service_config s2 else (Proceed, s2)) of
           (Proceed, s3) \<Rightarrow>
             (case (if child_process s3 = None then launch env service_config s3
                    else (Proceed, s3)) of
                (Proceed, s4) \<Rightarrow> (Proceed, sleep GIT_CHECK_INTERVAL s4)
              | other \<Rightarrow> other)
         | other \<Rightarrow> other)"

definition loop_body :: "poll_env \<Rightarrow> service_config \<Rightarrow> supervisor \<Rightarrow> flow \<times> supervisor" where
  "loop_body env service_config s =
     (case check_updates env service_config s of
        (Raises e, s1) \<Rightarrow> (Raised e, s1)
      | (Returns has_updates, s1) \<Rightarrow> handle_process env service_config has_updates s1)"

definition handle_exception :: "poll_env \<Rightarrow> supervisor \<Rightarrow> supervisor" where
  "handle_exception env s =
     (let s1 = service_log (asctime env) ''ERROR''
                 (''Unexpected error in service manager: '' @ exception_text env) s;
          s2 = (case child_process s1 of
                  None \<Rightarrow> s1
                | Some c \<Rightarrow> do_event (Terminate c) s1)
      in sleep GIT_CHECK_INTERVAL (set_status ''failed'' s2))"

definition loop_iteration :: "poll_env \<Rightarrow> service_config \<Rightarrow> supervisor \<Rightarrow> flow \<times> supervisor" where
  "loop_iteration env service_config s =
     (case loop_body env service_config s of
        (Raised e, s') \<Rightarrow> (Raised e, handle_exception env s')
      | other \<Rightarrow> other)"



text \<open>
  Reading a trace. \<open>pass_trace s s'\<close> is what \<open>s'\<close> has recorded beyond \<open>s\<close>;
  \<open>status_history\<close> lists the values written to \<^verbatim>\<open>service_status["status"]\<close>;
  \<open>before a b tr\<close> says that \<open>a\<close> occurs in \<open>tr\<close> ahead of the first \<open>b\<close>;
  \<open>git_pull_command\<close> is the pull that a pass issues; \<open>is_action\<close> picks the calls that
  act on a worker or pull (terminate, wait, pull, launch).
\<close>

definition pass_trace :: "supervisor \<Rightarrow> supervisor \<Rightarrow> event list" where
  "pass_trace s s' = drop (length (trace s)) (trace s')"

definition status_history :: "event list \<Rightarrow> string list" where
  "status_history tr = List.map_filter (\<lambda>e. case e of SetStatus v \<Rightarrow> Some v | _ \<Rightarrow> None) tr"

definition before :: "event \<Rightarrow> event \<Rightarrow> event list \<Rightarrow> bool" where
  "before a b tr = (a \<in> set (takeWhile (\<lambda>e. e \<noteq> b) tr))"

definition git_pull_command :: "service_config \<Rightarrow> supervisor \<Rightarrow> event" where
  "git_pull_command service_config s =
     Command [''git'', ''pull'', ''origin'', cfg_branch service_config]
       (repo_path (service_status s))"

definition is_action :: "event \<Rightarrow> bool" where
  "is_action e =
     (case e of
        Terminate n \<Rightarrow> True
      | Wait n \<Rightarrow> True
      | Popen n cmd cwd \<Rightarrow> True
      | Command cmd cwd \<Rightarrow> take 2 cmd = [''git'', ''pull'']
      | _ \<Rightarrow> False)"

definition is_popen :: "event \<Rightarrow> bool" where
  "is_popen e = (case e of Popen n cmd cwd \<Rightarrow> True | _ \<Rightarrow> False)"

text \<open>What \<open>run_command\<close> returns for a result of \<^verbatim>\<open>subprocess.run\<close> that it does not re-raise.\<close>

definition command_output :: "run_result \<Rightarrow> string option" where
  "command_output r = (case r of Completed out \<Rightarrow> Some (strip out) | _ \<Rightarrow> None)"

section \<open>Reconciler and Supervisors together\<close>

text \<open>
  Two things happen to the Reconciler's state from outside it. A started process runs
  the start of \<^verbatim>\<open>manage_service\<close>, which enters its path in the Store, and exits
  unless it reaches the polling loop; and a process exits.
\<close>

definition process_exits :: "nat \<Rightarrow> manager_state \<Rightarrow> manager_state" where
  "process_exits p st = st\<lparr>alive := alive st - {p}\<rparr>"

definition supervisor_starts :: "start_env \<Rightarrow> nat \<Rightarrow> manager_state \<Rightarrow> manager_state" where
  "supervisor_starts env sup_pid st =
     (case map_of (spawned st) sup_pid of
        None \<Rightarrow> st
      | Some service_config \<Rightarrow>
          (case manage_service_start env service_config sup_pid (services st) of
             (Enters_loop, shared', s) \<Rightarrow> st\<lparr>services := shared'\<rparr>
           | (other, shared', s) \<Rightarrow> process_exits sup_pid (st\<lparr>services := shared'\<rparr>)))"

section \<open>The status server: \<^verbatim>\<open>StatusAPIRequestHandler.do_GET\<close>\<close>

text \<open>
  The Python values that the handler meets. \<open>PyListProxy\<close> is the proxy of a list that
  lives in a manager process (a live reference to it), shown with the content of that
  list; \<open>PyClass\<close> is a class object. \<open>type_of\<close> is \<^verbatim>\<open>type(v)\<close>; the class of every
  class here is \<^verbatim>\<open>type\<close>, so \<^verbatim>\<open>list.__class__\<close> is \<^verbatim>\<open>type\<close>.
\<close>

datatype pytype = NoneType | IntType | StrType | ListType | DictType | ListProxyType | TypeType

datatype pyval =
    PyNone
  | PyInt int
  | PyStr string
  | PyList "pyval list"
  | PyDict "(string \<times> pyval) list"
  | PyListProxy "string list"
  | PyClass pytype

fun type_of :: "pyval \<Rightarrow> pytype" where
  "type_of PyNone = NoneType"
| "type_of (PyInt i) = IntType"
| "type_of (PyStr x) = StrType"
| "type_of (PyList xs) = ListType"
| "type_of (PyDict kvs) = DictType"
| "type_of (PyListProxy xs) = ListProxyType"
| "type_of (PyClass t) = TypeType"

definition class_of_class :: "pytype \<Rightarrow> pytype" where
  \<comment> \<open>\<^verbatim>\<open>C.__class__\<close> for a class \<^verbatim>\<open>C\<close>\<close>
  "class_of_class t = TypeType"

definition isinstance :: "pyval \<Rightarrow> pytype \<Rightarrow> bool" where
  \<comment> \<open>none of these types is a subclass of another\<close>
  "isinstance v t = (type_of v = t)"

definition py_list :: "pyval \<Rightarrow> pyval outcome" where
  \<comment> \<open>\<^verbatim>\<open>list(v)\<close>\<close>
  "py_list v =
     (case v of
        PyList xs \<Rightarrow> Returns (PyList xs)
      | PyListProxy xs \<Rightarrow> Returns (PyList (map PyStr xs))
      | PyDict kvs \<Rightarrow> Returns (PyList (map (PyStr \<circ> fst) kvs))
      | PyStr x \<Rightarrow> Returns (PyList (map (\<lambda>c. PyStr [c]) x))
      | _ \<Rightarrow> Raises (TypeError ''object is not iterable''))"

definition copy_value :: "pyval \<Rightarrow> pyval outcome" where
  \<comment> \<open>\<^verbatim>\<open>list(v) if isinstance(v, list.__class__) else v\<close>\<close>
  "copy_value v = (if isinstance v (class_of_class ListType) then py_list v else Returns v)"

fun copy_items :: "(string \<times> pyval) list \<Rightarrow> (string \<times> pyval) list outcome" where
  "copy_items [] = Returns []"
| "copy_items ((k, v) # kvs) =
     (case copy_value v of
        Raises e \<Rightarrow> Raises e
      | Returns v' \<Rightarrow>
          (case copy_items kvs of
             Raises e \<Rightarrow> Raises e
           | Returns kvs' \<Rightarrow> Returns ((k, v') # kvs')))"

text \<open>
  \<^verbatim>\<open>service.items()\<close> for the status dictionary of a service, in the order in which
  \<^verbatim>\<open>manage_service\<close> creates its keys. The value under \<^verbatim>\<open>"logs"\<close> is the proxy of the
  shared list.
\<close>

definition none_or :: "('a \<Rightarrow> pyval) \<Rightarrow> 'a option \<Rightarrow> pyval" where
  "none_or f x = (case x of None \<Rightarrow> PyNone | Some y \<Rightarrow> f y)"

definition status_items :: "service_status \<Rightarrow> (string \<times> pyval) list" where
  "status_items st =
     [(''status'', PyStr (status st)),
      (''url'', PyStr (url st)),
      (''branch'', PyStr (branch st)),
      (''repo_path'', PyStr (repo_path st)),
      (''script_to_run'', none_or PyStr (script_to_run st)),
      (''service_manager_pid'', PyInt (int (service_manager_pid st))),
      (''script_pid'', none_or (\<lambda>n. PyInt (int n)) (script_pid st)),
      (''logs'', PyListProxy (logs st))]"

fun copy_services :: "(string \<times> service_status) list \<Rightarrow> (string \<times> pyval) list outcome" where
  "copy_services [] = Returns []"
| "copy_services ((p, service) # rest) =
     (case copy_items (status_items service) of
        Raises e \<Rightarrow> Raises e
      | Returns d \<Rightarrow>
          (case copy_services rest of
             Raises e \<Rightarrow> Raises e
           | Returns ds \<Rightarrow> Returns ((p, PyDict d) # ds)))"

text \<open>Decimal digits, for the port in \<^verbatim>\<open>f"http://{API_HOST}:{API_PORT}/status"\<close>.\<close>

function str_nat :: "nat \<Rightarrow> string" where
  "str_nat n =
     (if n < 10 then [''0123456789'' ! n]
      else str_nat (n div 10) @ [''0123456789'' ! (n mod 10)])"
  by pat_completeness auto
termination
  by (relation "measure id") auto

declare str_nat.simps [simp del]

definition status_copy :: "nat \<Rightarrow> (string \<times> service_status) list \<Rightarrow> pyval outcome" where
  "status_copy mpid svcs =
     (case copy_services svcs of
        Raises e \<Rightarrow> Raises e
      | Returns ds \<Rightarrow>
          Returns (PyDict
            [(''manager_pid'', PyInt (int mpid)),
             (''api_url'', PyStr (''http://'' @ API_HOST @ '':'' @ str_nat API_PORT @ ''/status'')),
             (''services'', PyDict ds)]))"

text \<open>
  \<^verbatim>\<open>json.dumps\<close>, up to the layout of the text: the JSON value that is written, or the
  \<^verbatim>\<open>TypeError\<close> for a value that is not serializable.
\<close>

datatype json =
    JNull
  | JNumber int
  | JString string
  | JArray "json list"
  | JObject "(string \<times> json) list"

fun json_dumps :: "pyval \<Rightarrow> json outcome"
  and json_dumps_list :: "pyval list \<Rightarrow> json list outcome"
  and json_dumps_items :: "(string \<times> pyval) list \<Rightarrow> (string \<times> json) list outcome" where
  "json_dumps PyNone = Returns JNull"
| "json_dumps (PyInt i) = Returns (JNumber i)"
| "json_dumps (PyStr x) = Returns (JString x)"
| "json_dumps (PyList xs) =
     (case json_dumps_list xs of Raises e \<Rightarrow> Raises e | Returns js \<Rightarrow> Returns (JArray js))"
| "json_dumps (PyDict kvs) =
     (case json_dumps_items kvs of Raises e \<Rightarrow> Raises e | Returns js \<Rightarrow> Returns (JObject js))"
| "json_dumps (PyListProxy xs) =
     Raises (TypeError ''Object of type ListProxy is not JSON serializable'')"
| "json_dumps (PyClass t) =
     Raises (TypeError ''Object of type type is not JSON serializable'')"
| "json_dumps_list [] = Returns []"
| "json_dumps_list (v # vs) =
     (case json_dumps v of
        Raises e \<Rightarrow> Raises e
      | Returns j \<Rightarrow>
          (case json_dumps_list vs of Raises e \<Rightarrow> Raises e | Returns js \<Rightarrow> Returns (j # js)))"
| "json_dumps_items [] = Returns []"
| "json_dumps_items ((k, v) # kvs) =
     (case json_dumps v of
        Raises e \<Rightarrow> Raises e
      | Returns j \<Rightarrow>
          (case json_dumps_items kvs of
             Raises e \<Rightarrow> Raises e
           | Returns js \<Rightarrow> Returns ((k, j) # js)))"

text \<open>
  What the handler sends, in order, and the exception that ends it, if any. The
  arguments are the request path and what the shared dictionary holds when the request
  is served: \<^verbatim>\<open>"manager_pid"\<close> and, for each path under \<^verbatim>\<open>"services"\<close>, the status
  dictionary that its proxy refers to.
\<close>

datatype http_event =
    Send_response nat
  | Send_header string string
  | End_headers
  | Write_json json
  | Write_bytes string

definition do_GET ::
  "string \<Rightarrow> nat \<Rightarrow> (string \<times> service_status) list \<Rightarrow> http_event list \<times> exn option" where
  "do_GET request_path mpid svcs =
     (if request_path = ''/status'' then
        (let sent = [Send_response 200, Send_header ''Content-type'' ''application/json'',
                     End_headers]
         in case status_copy mpid svcs of
              Raises e \<Rightarrow> (sent, Some e)
            | Returns c \<Rightarrow>
                (case json_dumps c of
                   Raises e \<Rightarrow> (sent, Some e)
                 | Returns j \<Rightarrow> (sent @ [Write_json j], None)))
      else ([Send_response 404, End_headers, Write_bytes ''Not Found''], None))"

text \<open>Whether a value holds a proxy, that is a live reference into a manager's state.\<close>

fun holds_proxy :: "pyval \<Rightarrow> bool"
  and holds_proxy_list :: "pyval list \<Rightarrow> bool"
  and holds_proxy_items :: "(string \<times> pyval) list \<Rightarrow> bool" where
  "holds_proxy (PyListProxy xs) = True"
| "holds_proxy (PyList xs) = holds_proxy_list xs"
| "holds_proxy (PyDict kvs) = holds_proxy_items kvs"
| "holds_proxy PyNone = False"
| "holds_proxy (PyInt i) = False"
| "holds_proxy (PyStr x) = False"
| "holds_proxy (PyClass t) = False"
| "holds_proxy_list [] = False"
| "holds_proxy_list (v # vs) = (holds_proxy v \<or> holds_proxy_list vs)"
| "holds_proxy_items [] = False"
| "holds_proxy_items ((k, v) # kvs) = (holds_proxy v \<or> holds_proxy_items kvs)"

section \<open>Example configurations and states\<close>

text \<open>
  One service, \<open>svc_a\<close>. \<open>fresh_state\<close> is the state in which \<^verbatim>\<open>main\<close> (process 100)
  enters its loop, with the status server as process 101. In \<open>running_state\<close> the
  Supervisor of \<open>svc_a\<close> is process 102, tracked in the table and registered in the
  Store, and the worker it launched is process 555.
\<close>

definition svc_a :: service_config where
  "svc_a = \<lparr>cfg_url = ''https://example.test/a.git'', cfg_branch = ''main'',
            cfg_path = ''/srv/repos/a''\<rparr>"

definition example_lib :: pylib where
  "example_lib = \<lparr>urlparse_path = (\<lambda>u. ''/a.git''), abspath = (\<lambda>p. ''/srv/'' @ p)\<rparr>"

definition fresh_state :: manager_state where
  "fresh_state =
     \<lparr>manager_pid = 100,
      services = [],
      managed_processes =
        [(''_api_server'', \<lparr>proc_pid = 101, proc_name = ''APIServer''\<rparr>)],
      alive = {100, 101},
      spawned = [],
      next_pid = 102,
      events = [Log ''INFO'' ''--- AutoExec.py Manager Started ---'',
                Command [''git'', ''--version''] ''.'']\<rparr>"

definition running_state :: manager_state where
  "running_state =
     \<lparr>manager_pid = 100,
      services = [(''/srv/repos/a'', 102)],
      managed_processes =
        [(''_api_server'', \<lparr>proc_pid = 101, proc_name = ''APIServer''\<rparr>),
         (''/srv/repos/a'', \<lparr>proc_pid = 102, proc_name = ''a''\<rparr>)],
      alive = {100, 101, 102, 555},
      spawned = [(102, svc_a)],
      next_pid = 103,
      events = []\<rparr>"

text \<open>\<open>first_cycle\<close> is the state after the first cycle from \<open>fresh_state\<close> with \<open>svc_a\<close> desired.\<close>

definition first_cycle :: manager_state where
  "first_cycle =
      \<lparr>manager_pid = 100,
       services = [],
       managed_processes =
         [(''_api_server'', \<lparr>proc_pid = 101, proc_name = ''APIServer''\<rparr>),
          (''/srv/repos/a'', \<lparr>proc_pid = 102, proc_name = ''a''\<rparr>)],
       alive = {100, 101, 102},
       spawned = [(102, svc_a)],
       next_pid = 103,
       events = [Log ''INFO'' ''--- AutoExec.py Manager Started ---'',
                Command [''git'', ''--version''] ''.'',
                Log ''INFO'' ''New service for /srv/repos/a found. Starting...'',
                 Start 102 ''a'' ''https://example.test/a.git'' ''main'' ''/srv/repos/a'',
                 Sleep 5]\<rparr>"

text \<open>
  \<open>live_supervisors p st\<close> lists the processes that were started to run
  \<^verbatim>\<open>manage_service\<close> for the path \<open>p\<close> and have not exited.
\<close>

definition live_supervisors :: "string \<Rightarrow> manager_state \<Rightarrow> nat list" where
  "live_supervisors p st =
     map fst (filter (\<lambda>(n, c). cfg_path c = p \<and> n \<in> alive st) (spawned st))"

text \<open>The start of a Supervisor whose clone fails, and of one that finds its checkout.\<close>

definition clone_fails :: start_env where
  "clone_fails = \<lparr>start_asctime = ''2024-01-01 00:00:00'', git_dir_exists = False,
                  makedirs_ok = True, git_clone = CalledProcessError ''fatal: not found''\<rparr>"


text \<open>
  A pass of the polling loop in which everything works: no update, no worker yet, the
  entry point is \<^verbatim>\<open>app.py\<close>, and the launched worker is process 555.
\<close>

definition quiet_pass :: poll_env where
  "quiet_pass =
     \<lparr>asctime = ''2024-01-01 00:00:30'',
      git_fetch = Completed [],
      rev_parse_head = Completed ''1111'',
      rev_parse_remote = Completed ''1111'',
      child_exited = False,
      wait_returns = True,
      git_pull = Completed ''Already up to date.'',
      autoexec_exists = True,
      autoexec_content = Some ''app.py'',
      script_exists = True,
      popen_pid = Some 555,
      sys_executable = ''/usr/bin/python3'',
      exception_text = ''error''\<rparr>"

text \<open>The Supervisor of \<open>svc_a\<close> (process 102) when it enters the loop, and after one such pass.\<close>

definition sup_entering :: supervisor where
  "sup_entering =
     \<lparr>service_status =
        \<lparr>status = ''cloning'', url = ''https://example.test/a.git'', branch = ''main'',
         repo_path = ''/srv/repos/a'', script_to_run = None, service_manager_pid = 102,
         script_pid = None, logs = []\<rparr>,
      child_process = None,
      trace = [SetStatus ''initializing'', SetStatus ''cloning'']\<rparr>"

definition sup_running :: supervisor where
  "sup_running =
     \<lparr>service_status =
        \<lparr>status = ''running'', url = ''https://example.test/a.git'', branch = ''main'',
         repo_path = ''/srv/repos/a'', script_to_run = Some ''app.py'', service_manager_pid = 102,
         script_pid = Some 555,
         logs = [''[2024-01-01 00:00:30] [INFO] Starting script: python app.py'']\<rparr>,
      child_process = Some 555,
      trace = []\<rparr>"

section \<open>Properties of the log buffer\<close>

lemma trim_drop: "trim xs = drop (length xs - MAX_LOG_ENTRIES) xs"
proof (induction xs rule: trim.induct)
  case (1 xs)
  show ?case
  proof (cases "length xs > MAX_LOG_ENTRIES")
    case True
    then obtain y ys where xs: "xs = y # ys"
      by (cases xs) auto
    from True xs have "length xs - MAX_LOG_ENTRIES = Suc (length ys - MAX_LOG_ENTRIES)"
      by simp
    then have "drop (length ys - MAX_LOG_ENTRIES) ys = drop (length xs - MAX_LOG_ENTRIES) xs"
      using xs by simp
    with True xs "1.IH" show ?thesis
      by (subst trim.simps) simp
  next
    case False
    then show ?thesis
      by (subst trim.simps) simp
  qed
qed

lemma emit_drop:
  "emit buf l = drop (Suc (length buf) - MAX_LOG_ENTRIES) (buf @ [l])"
  by (simp add: emit_def trim_drop)

lemma drop_drop_append_last:
  assumes "a \<le> length xs"
  shows "drop (Suc (length (drop a xs)) - m) (drop a xs @ [l]) =
         drop (max a (Suc (length xs) - m)) (xs @ [l])"
proof -
  have "drop (Suc (length (drop a xs)) - m) (drop a xs @ [l]) =
        drop (Suc (length xs - a) - m) (drop a (xs @ [l]))"
    using assms by simp
  also have "\<dots> = drop (Suc (length xs - a) - m + a) (xs @ [l])"
    by (simp only: drop_drop)
  also have "Suc (length xs - a) - m + a = max a (Suc (length xs) - m)"
    using assms unfolding max_def by arith
  finally show ?thesis .
qed

lemma foldl_emit_drop:
  "foldl emit buf ls =
     (if ls = [] then buf
      else drop (length (buf @ ls) - MAX_LOG_ENTRIES) (buf @ ls))"
proof (induction ls rule: rev_induct)
  case Nil
  then show ?case by simp
next
  case (snoc l ls)
  show ?case
  proof (cases "ls = []")
    case True
    then show ?thesis by (simp add: emit_drop)
  next
    case False
    with snoc have IH: "foldl emit buf ls = drop (length (buf @ ls) - MAX_LOG_ENTRIES) (buf @ ls)"
      by simp
    have "foldl emit buf (ls @ [l]) = emit (foldl emit buf ls) l"
      by simp
    also have "\<dots> = drop (max (length (buf @ ls) - MAX_LOG_ENTRIES)
                         (Suc (length (buf @ ls)) - MAX_LOG_ENTRIES)) ((buf @ ls) @ [l])"
      unfolding IH emit_drop by (rule drop_drop_append_last) simp
    also have "max (length (buf @ ls) - MAX_LOG_ENTRIES) (Suc (length (buf @ ls)) - MAX_LOG_ENTRIES)
               = length (buf @ ls @ [l]) - MAX_LOG_ENTRIES"
      by (simp add: max_def)
    finally show ?thesis by simp
  qed
qed

text \<open>
  Claim C8. Whatever a service's log buffer holds, once more lines than
  \<open>MAX_LOG_ENTRIES\<close> have been appended through \<open>emit\<close>, the buffer holds exactly
  \<open>MAX_LOG_ENTRIES\<close> entries, and they are the most recently appended lines in the
  order in which they were appended (oldest first): the older ones were evicted from the
  front.
\<close>

theorem emit_keeps_most_recent:
  "length ls > MAX_LOG_ENTRIES \<Longrightarrow>
     foldl emit buf ls = drop (length ls - MAX_LOG_ENTRIES) ls \<and>
     length (foldl emit buf ls) = MAX_LOG_ENTRIES"
proof -
  assume more: "length ls > MAX_LOG_ENTRIES"
  then have ne: "ls \<noteq> []" by auto
  have "length (buf @ ls) - MAX_LOG_ENTRIES = length buf + (length ls - MAX_LOG_ENTRIES)"
    using more by simp
  then have "drop (length (buf @ ls) - MAX_LOG_ENTRIES) (buf @ ls) =
             drop (length ls - MAX_LOG_ENTRIES) ls"
    by simp
  with ne have eq: "foldl emit buf ls = drop (length ls - MAX_LOG_ENTRIES) ls"
    by (simp add: foldl_emit_drop)
  moreover from more have "length (drop (length ls - MAX_LOG_ENTRIES) ls) = MAX_LOG_ENTRIES"
    by simp
  ultimately show ?thesis by simp
qed

theorem emit_keeps_most_recent_witness:
  "length [''l01'', ''l02'', ''l03'', ''l04'', ''l05'', ''l06'', ''l07'', ''l08'', ''l09'', ''l10'',
           ''l11'', ''l12'', ''l13'', ''l14'', ''l15'', ''l16'', ''l17'', ''l18'', ''l19'', ''l20'',
           ''l21'', ''l22''] > MAX_LOG_ENTRIES \<and>
   foldl emit [''old1'', ''old2'']
      [''l01'', ''l02'', ''l03'', ''l04'', ''l05'', ''l06'', ''l07'', ''l08'', ''l09'', ''l10'',
       ''l11'', ''l12'', ''l13'', ''l14'', ''l15'', ''l16'', ''l17'', ''l18'', ''l19'', ''l20'',
       ''l21'', ''l22''] =
      [''l03'', ''l04'', ''l05'', ''l06'', ''l07'', ''l08'', ''l09'', ''l10'',
       ''l11'', ''l12'', ''l13'', ''l14'', ''l15'', ''l16'', ''l17'', ''l18'', ''l19'', ''l20'',
       ''l21'', ''l22'']"
proof -
  have more: "length [''l01'', ''l02'', ''l03'', ''l04'', ''l05'', ''l06'', ''l07'', ''l08'', ''l09'', ''l10'',
           ''l11'', ''l12'', ''l13'', ''l14'', ''l15'', ''l16'', ''l17'', ''l18'', ''l19'', ''l20'',
           ''l21'', ''l22''] > MAX_LOG_ENTRIES"
    by (simp add: MAX_LOG_ENTRIES_def)
  from emit_keeps_most_recent [OF more, of "[''old1'', ''old2'']"] more show ?thesis
    by (simp add: MAX_LOG_ENTRIES_def)
qed

section \<open>Properties of the Reconciler\<close>

subsection \<open>Stopping removed services\<close>

lemma services_stop_service [simp]:
  "services (stop_service ex p st) = AList.delete p (services st)"
  by (auto simp: stop_service_def emit_event_def terminate_and_join_def Let_def is_alive_def
        delete_id split: option.splits)

lemma managed_stop_service [simp]:
  "managed_processes (stop_service ex p st) = AList.delete p (managed_processes st)"
  by (auto simp: stop_service_def emit_event_def terminate_and_join_def Let_def is_alive_def
        delete_id map_of_eq_None_iff split: option.splits)

lemma next_pid_stop_service [simp]: "next_pid (stop_service ex p st) = next_pid st"
  by (auto simp: stop_service_def emit_event_def terminate_and_join_def Let_def split: option.splits)

lemma alive_stop_service_subset: "alive (stop_service ex p st) \<subseteq> alive st"
  by (auto simp: stop_service_def emit_event_def terminate_and_join_def Let_def split: option.splits if_splits)

lemma events_stop_service: "\<exists>evs. events (stop_service ex p st) = events st @ evs"
  by (auto simp: stop_service_def emit_event_def terminate_and_join_def Let_def split: option.splits)

lemma in_middle: "\<exists>pre post. [a, t, j, b] = pre @ t # j # post"
  by (rule exI [of _ "[a]"], rule exI [of _ "[b]"]) simp

lemma stop_service_signals:
  assumes "map_of (managed_processes st) p = Some pr" "is_alive pr st"
  shows "\<exists>pre post. events (stop_service ex p st) =
            events st @ pre @ [Terminate (proc_pid pr), Join (proc_pid pr) 5] @ post"
  using assms
  by (auto simp: stop_service_def emit_event_def terminate_and_join_def Let_def is_alive_def
        intro: in_middle)

lemma stop_service_alive_or_signalled:
  assumes "n \<in> alive st"
  shows "n \<in> alive (stop_service ex q st) \<or>
         (\<exists>pre post. events (stop_service ex q st) = events st @ pre @ [Terminate n, Join n 5] @ post)"
  using assms
  by (auto simp: stop_service_def emit_event_def terminate_and_join_def Let_def is_alive_def
       split: option.splits intro: in_middle)

lemma fold_stop_services [simp]:
  "services (fold (stop_service ex) qs st) = filter (\<lambda>(k, v). k \<notin> set qs) (services st)"
  by (induction qs arbitrary: st) (auto simp: AList.delete_eq intro: filter_cong)

lemma fold_stop_managed [simp]:
  "managed_processes (fold (stop_service ex) qs st) =
     filter (\<lambda>(k, v). k \<notin> set qs) (managed_processes st)"
  by (induction qs arbitrary: st) (auto simp: AList.delete_eq intro: filter_cong)

lemma fold_stop_next_pid [simp]: "next_pid (fold (stop_service ex) qs st) = next_pid st"
  by (induction qs arbitrary: st) auto

lemma fold_stop_alive_subset: "alive (fold (stop_service ex) qs st) \<subseteq> alive st"
proof (induction qs arbitrary: st)
  case Nil
  then show ?case by simp
next
  case (Cons q qs)
  have "alive (fold (stop_service ex) qs (stop_service ex q st)) \<subseteq> alive (stop_service ex q st)"
    by (rule Cons.IH)
  with alive_stop_service_subset [of ex q st] show ?case by auto
qed

lemma fold_stop_events: "\<exists>evs. events (fold (stop_service ex) qs st) = events st @ evs"
proof (induction qs arbitrary: st)
  case Nil
  then show ?case by simp
next
  case (Cons q qs)
  obtain e1 where e1: "events (stop_service ex q st) = events st @ e1"
    using events_stop_service by blast
  obtain e2 where "events (fold (stop_service ex) qs (stop_service ex q st)) =
      events (stop_service ex q st) @ e2"
    using Cons.IH by blast
  with e1 show ?case by simp
qed

lemma fold_stop_alive_or_signalled:
  assumes "n \<in> alive st"
  shows "n \<in> alive (fold (stop_service ex) qs st) \<or>
         (\<exists>pre post. events (fold (stop_service ex) qs st) =
             events st @ pre @ [Terminate n, Join n 5] @ post)"
  using assms
proof (induction qs arbitrary: st)
  case Nil
  then show ?case by simp
next
  case (Cons q qs)
  let ?st1 = "stop_service ex q st"
  obtain e1 where e1: "events ?st1 = events st @ e1"
    using events_stop_service by blast
  obtain e2 where e2: "events (fold (stop_service ex) qs ?st1) = events ?st1 @ e2"
    using fold_stop_events by blast
  from stop_service_alive_or_signalled [OF Cons.prems, of ex q]
  show ?case
  proof
    assume "n \<in> alive ?st1"
    from Cons.IH [OF this] show ?thesis
    proof
      assume "n \<in> alive (fold (stop_service ex) qs ?st1)"
      then show ?thesis by simp
    next
      assume "\<exists>pre post. events (fold (stop_service ex) qs ?st1) =
                events ?st1 @ pre @ [Terminate n, Join n 5] @ post"
      then obtain pre post where "events (fold (stop_service ex) qs ?st1) =
                events ?st1 @ pre @ [Terminate n, Join n 5] @ post" by blast
      with e1 have "events (fold (stop_service ex) (q # qs) st) =
                events st @ (e1 @ pre) @ [Terminate n, Join n 5] @ post" by simp
      then show ?thesis by blast
    qed
  next
    assume "\<exists>pre post. events ?st1 = events st @ pre @ [Terminate n, Join n 5] @ post"
    then obtain pre post where "events ?st1 = events st @ pre @ [Terminate n, Join n 5] @ post"
      by blast
    with e2 have "events (fold (stop_service ex) (q # qs) st) =
                events st @ pre @ [Terminate n, Join n 5] @ (post @ e2)" by simp
    then show ?thesis by blast
  qed
qed

lemma fold_stop_signals:
  assumes "p \<in> set qs" "map_of (managed_processes st) p = Some pr" "is_alive pr st"
  shows "\<exists>pre post. events (fold (stop_service ex) qs st) =
            events st @ pre @ [Terminate (proc_pid pr), Join (proc_pid pr) 5] @ post"
proof -
  from assms(1) obtain xs ys where qs: "qs = xs @ p # ys" and nx: "p \<notin> set xs"
    by (meson split_list_first)
  let ?sx = "fold (stop_service ex) xs st"
  let ?sp = "stop_service ex p ?sx"
  obtain ex1 where ex1: "events ?sx = events st @ ex1"
    using fold_stop_events by blast
  obtain ep where ep: "events ?sp = events ?sx @ ep"
    using events_stop_service by blast
  obtain ey where ey: "events (fold (stop_service ex) ys ?sp) = events ?sp @ ey"
    using fold_stop_events by blast
  have fin: "fold (stop_service ex) qs st = fold (stop_service ex) ys ?sp"
    by (simp add: qs)
  from nx assms(2) have mp: "map_of (managed_processes ?sx) p = Some pr"
    by (simp add: map_of_filter_in)
  from assms(3) have "proc_pid pr \<in> alive st" by (simp add: is_alive_def)
  from fold_stop_alive_or_signalled [OF this, of ex xs]
  have "\<exists>pre post. events ?sp = events st @ pre @ [Terminate (proc_pid pr), Join (proc_pid pr) 5] @ post"
  proof
    assume "proc_pid pr \<in> alive ?sx"
    then have "is_alive pr ?sx" by (simp add: is_alive_def)
    from stop_service_signals [OF mp this, of ex] obtain pre post where
      "events ?sp = events ?sx @ pre @ [Terminate (proc_pid pr), Join (proc_pid pr) 5] @ post"
      by blast
    with ex1 have "events ?sp = events st @ (ex1 @ pre) @ [Terminate (proc_pid pr), Join (proc_pid pr) 5] @ post"
      by simp
    then show ?thesis by blast
  next
    assume "\<exists>pre post. events ?sx = events st @ pre @ [Terminate (proc_pid pr), Join (proc_pid pr) 5] @ post"
    then obtain pre post where
      "events ?sx = events st @ pre @ [Terminate (proc_pid pr), Join (proc_pid pr) 5] @ post" by blast
    with ep have "events ?sp = events st @ pre @ [Terminate (proc_pid pr), Join (proc_pid pr) 5] @ (post @ ep)"
      by simp
    then show ?thesis by blast
  qed
  then obtain pre post where
    "events ?sp = events st @ pre @ [Terminate (proc_pid pr), Join (proc_pid pr) 5] @ post" by blast
  with ey fin have "events (fold (stop_service ex) qs st) =
     events st @ pre @ [Terminate (proc_pid pr), Join (proc_pid pr) 5] @ (post @ ey)" by simp
  then show ?thesis by blast
qed


subsection \<open>Starting services and the health check\<close>

lemma start_process_simps:
  "start_process c n st = (pr, st') \<Longrightarrow>
     proc_pid pr = next_pid st \<and> proc_name pr = n \<and> services st' = services st \<and>
     managed_processes st' = managed_processes st \<and> alive st' = insert (next_pid st) (alive st) \<and>
     next_pid st' = Suc (next_pid st) \<and>
     events st' = events st @ [Start (next_pid st) n (cfg_url c) (cfg_branch c) (cfg_path c)]"
  by (auto simp: start_process_def Let_def)

lemma in_update_keys:
  "(a, b) \<in> set (AList.update q v al) \<Longrightarrow> a \<notin> fst ` set al \<Longrightarrow> a = q"
  using dom_update [of q v al] by force

lemma start_service_effect:
  assumes "start_service d q st = (e, st')"
  shows "services st' = services st"
    and "alive st \<subseteq> alive st'"
    and "next_pid st \<le> next_pid st'"
    and "prefix (events st) (events st')"
    and "fst ` set (managed_processes st') \<subseteq> insert q (fst ` set (managed_processes st))"
    and "k \<noteq> q \<Longrightarrow> map_of (managed_processes st') k = map_of (managed_processes st) k"
    and "distinct (map fst (managed_processes st)) \<Longrightarrow> distinct (map fst (managed_processes st'))"
  using assms
  by (auto simp: start_service_def start_process_def emit_event_def Let_def dom_update
        update_conv' distinct_update split: option.splits dest: in_update_keys)

lemma start_service_ok:
  assumes "map_of d q = Some c"
  shows "\<exists>st'. start_service d q st = (None, st') \<and>
           map_of (managed_processes st') q = Some \<lparr>proc_pid = next_pid st, proc_name = basename q\<rparr> \<and>
           next_pid st \<in> alive st' \<and> next_pid st' = Suc (next_pid st) \<and>
           events st' = events st @ [Log ''INFO'' (''New service for '' @ q @ '' found. Starting...''),
               Start (next_pid st) (basename q) (cfg_url c) (cfg_branch c) (cfg_path c)]"
  using assms
  by (auto simp: start_service_def start_process_def emit_event_def Let_def update_conv')

lemma health_check_effect:
  assumes "health_check d item st = (e, st')"
  shows "services st' = services st"
    and "alive st \<subseteq> alive st'"
    and "next_pid st \<le> next_pid st'"
    and "prefix (events st) (events st')"
    and "fst ` set (managed_processes st') \<subseteq> insert (fst item) (fst ` set (managed_processes st))"
    and "k \<noteq> fst item \<Longrightarrow> map_of (managed_processes st') k = map_of (managed_processes st) k"
  using assms
  by (auto simp: health_check_def start_process_def emit_event_def Let_def dom_update
        update_conv' split: option.splits prod.splits if_splits dest: in_update_keys)

lemma for_each_preserves:
  assumes "for_each body xs st = (e, st')" "P st"
    and "\<And>x s e s'. x \<in> set xs \<Longrightarrow> P s \<Longrightarrow> body x s = (e, s') \<Longrightarrow> P s'"
  shows "P st'"
  using assms
proof (induction xs arbitrary: st)
  case Nil
  then show ?case by simp
next
  case (Cons x xs)
  obtain e1 s1 where b: "body x st = (e1, s1)" by (cases "body x st")
  with Cons.prems(2,3) have P1: "P s1" by auto
  show ?case
  proof (cases e1)
    case None
    with b Cons.prems(1) have "for_each body xs s1 = (e, st')" by simp
    from Cons.IH [OF this P1] Cons.prems(3) show ?thesis by auto
  next
    case (Some a)
    with b Cons.prems(1) have "st' = s1" by simp
    with P1 show ?thesis by simp
  qed
qed

lemma for_each_establishes:
  assumes "for_each body xs st = (None, st')" "p \<in> set xs" "I st"
    and "\<And>x s e s'. I s \<Longrightarrow> body x s = (e, s') \<Longrightarrow> I s'"
    and "\<And>s e s'. I s \<Longrightarrow> body p s = (e, s') \<Longrightarrow> Q s'"
    and "\<And>x s e s'. Q s \<Longrightarrow> body x s = (e, s') \<Longrightarrow> Q s'"
  shows "Q st'"
  using assms(1,2,3)
proof (induction xs arbitrary: st)
  case Nil
  then show ?case by simp
next
  case (Cons x xs)
  obtain e1 s1 where b: "body x st = (e1, s1)" by (cases "body x st")
  with Cons.prems(1) have e1: "e1 = None" and rest: "for_each body xs s1 = (None, st')"
    by (auto split: option.splits)
  from b Cons.prems(3) assms(4) have I1: "I s1" by blast
  show ?case
  proof (cases "x = p")
    case True
    with b Cons.prems(3) assms(5) have "Q s1" by blast
    from for_each_preserves [OF rest, of Q, OF this] assms(6) show ?thesis by blast
  next
    case False
    with Cons.prems(2) have "p \<in> set xs" by simp
    from Cons.IH [OF rest this I1] show ?thesis .
  qed
qed

lemma for_each_start_no_error:
  assumes "set xs \<subseteq> fst ` set d"
  shows "fst (for_each (start_service d) xs st) = None"
  using assms
proof (induction xs arbitrary: st)
  case Nil
  then show ?case by simp
next
  case (Cons x xs)
  then have "x \<in> fst ` set d" by simp
  then obtain c where "map_of d x = Some c"
    by (metis domD dom_map_of_conv_image_fst)
  from start_service_ok [OF this, of st] obtain s1 where "start_service d x st = (None, s1)"
    by blast
  with Cons show ?case by simp
qed


subsection \<open>The phases of a cycle\<close>

lemma reconcile_phases:
  assumes "reconcile ex d st = (err, st')"
  obtains st1 st2 st3 where
    "st1 = fold (stop_service ex)
             [p \<leftarrow> remdups (map fst (services st)). p \<notin> fst ` set d] st"
    "for_each (start_service d)
       [p \<leftarrow> remdups (map fst d). p \<notin> fst ` set (services st)] st1 = (None, st2)"
    "for_each (health_check d) (managed_processes st2) st2 = (err, st3)"
    "st' = (if err = None then emit_event (Sleep MAIN_LOOP_SLEEP) st3 else st3)"
proof -
  let ?st1 = "fold (stop_service ex)
             [p \<leftarrow> remdups (map fst (services st)). p \<notin> fst ` set d] st"
  let ?add = "[p \<leftarrow> remdups (map fst d). p \<notin> fst ` set (services st)]"
  have "set ?add \<subseteq> fst ` set d" by auto
  from for_each_start_no_error [OF this, of ?st1]
  obtain st2 where p2: "for_each (start_service d) ?add ?st1 = (None, st2)"
    by (cases "for_each (start_service d) ?add ?st1") auto
  obtain e3 st3 where p3: "for_each (health_check d) (managed_processes st2) st2 = (e3, st3)"
    by (cases "for_each (health_check d) (managed_processes st2) st2")
  from assms p2 p3 have "err = e3 \<and> st' = (if e3 = None then emit_event (Sleep MAIN_LOOP_SLEEP) st3 else st3)"
    by (auto simp: reconcile_def stop_removed_def Let_def split: option.splits)
  with p2 p3 that [of ?st1 st2 st3] show thesis by simp
qed

lemma for_each_start_effect:
  assumes "for_each (start_service d) xs st = (e, st')"
  shows "services st' = services st"
    and "alive st \<subseteq> alive st'"
    and "next_pid st \<le> next_pid st'"
    and "prefix (events st) (events st')"
    and "fst ` set (managed_processes st') \<subseteq> set xs \<union> fst ` set (managed_processes st)"
    and "k \<notin> set xs \<Longrightarrow> map_of (managed_processes st') k = map_of (managed_processes st) k"
    and "distinct (map fst (managed_processes st)) \<Longrightarrow> distinct (map fst (managed_processes st'))"
proof -
  show "services st' = services st"
    by (rule for_each_preserves [OF assms, of "\<lambda>s. services s = services st"])
       (auto dest: start_service_effect(1))
  show "alive st \<subseteq> alive st'"
    by (rule for_each_preserves [OF assms, of "\<lambda>s. alive st \<subseteq> alive s"])
       (auto dest: start_service_effect(2))
  show "next_pid st \<le> next_pid st'"
    by (rule for_each_preserves [OF assms, of "\<lambda>s. next_pid st \<le> next_pid s"])
       (auto dest: start_service_effect(3))
  show "prefix (events st) (events st')"
    by (rule for_each_preserves [OF assms, of "\<lambda>s. prefix (events st) (events s)"])
       (auto dest: start_service_effect(4))
  show "fst ` set (managed_processes st') \<subseteq> set xs \<union> fst ` set (managed_processes st)"
  proof (rule for_each_preserves [OF assms,
          of "\<lambda>s. fst ` set (managed_processes s) \<subseteq> set xs \<union> fst ` set (managed_processes st)"])
    show "fst ` set (managed_processes st) \<subseteq> set xs \<union> fst ` set (managed_processes st)"
      by (rule Un_upper2)
  next
    fix x s e s'
    assume x: "x \<in> set xs"
      and s: "fst ` set (managed_processes s) \<subseteq> set xs \<union> fst ` set (managed_processes st)"
      and b: "start_service d x s = (e, s')"
    show "fst ` set (managed_processes s') \<subseteq> set xs \<union> fst ` set (managed_processes st)"
    proof
      fix a
      assume "a \<in> fst ` set (managed_processes s')"
      with start_service_effect(5) [OF b] have "a = x \<or> a \<in> fst ` set (managed_processes s)"
        by (simp add: subset_iff)
      with x s show "a \<in> set xs \<union> fst ` set (managed_processes st)"
        by (auto simp: subset_iff)
    qed
  qed
  show "map_of (managed_processes st') k = map_of (managed_processes st) k" if k: "k \<notin> set xs"
  proof (rule for_each_preserves [OF assms,
          of "\<lambda>s. map_of (managed_processes s) k = map_of (managed_processes st) k"])
    show "map_of (managed_processes st) k = map_of (managed_processes st) k" ..
  next
    fix x s e s'
    assume x: "x \<in> set xs"
      and s: "map_of (managed_processes s) k = map_of (managed_processes st) k"
      and b: "start_service d x s = (e, s')"
    from x k have "k \<noteq> x" by blast
    from start_service_effect(6) [OF b this] s
    show "map_of (managed_processes s') k = map_of (managed_processes st) k"
      by (rule trans)
  qed
  show "distinct (map fst (managed_processes st'))" if dst: "distinct (map fst (managed_processes st))"
  proof (rule for_each_preserves [OF assms, of "\<lambda>s. distinct (map fst (managed_processes s))"])
    show "distinct (map fst (managed_processes st))" by (rule dst)
  next
    fix x s e s'
    assume s: "distinct (map fst (managed_processes s))"
      and b: "start_service d x s = (e, s')"
    from start_service_effect(7) [OF b s]
    show "distinct (map fst (managed_processes s'))" .
  qed
qed

lemma for_each_health_effect:
  assumes "for_each (health_check d) xs st = (e, st')"
  shows "services st' = services st"
    and "alive st \<subseteq> alive st'"
    and "next_pid st \<le> next_pid st'"
    and "prefix (events st) (events st')"
    and "fst ` set (managed_processes st') \<subseteq> fst ` set xs \<union> fst ` set (managed_processes st)"
    and "k \<notin> fst ` set xs \<Longrightarrow> map_of (managed_processes st') k = map_of (managed_processes st) k"
proof -
  show "services st' = services st"
    by (rule for_each_preserves [OF assms, of "\<lambda>s. services s = services st"])
       (auto dest: health_check_effect(1))
  show "alive st \<subseteq> alive st'"
    by (rule for_each_preserves [OF assms, of "\<lambda>s. alive st \<subseteq> alive s"])
       (auto dest: health_check_effect(2))
  show "next_pid st \<le> next_pid st'"
    by (rule for_each_preserves [OF assms, of "\<lambda>s. next_pid st \<le> next_pid s"])
       (auto dest: health_check_effect(3))
  show "prefix (events st) (events st')"
    by (rule for_each_preserves [OF assms, of "\<lambda>s. prefix (events st) (events s)"])
       (auto dest: health_check_effect(4))
  show "fst ` set (managed_processes st') \<subseteq> fst ` set xs \<union> fst ` set (managed_processes st)"
  proof (rule for_each_preserves [OF assms,
          of "\<lambda>s. fst ` set (managed_processes s) \<subseteq> fst ` set xs \<union> fst ` set (managed_processes st)"])
    show "fst ` set (managed_processes st) \<subseteq> fst ` set xs \<union> fst ` set (managed_processes st)"
      by (rule Un_upper2)
  next
    fix x s e s'
    assume x: "x \<in> set xs"
      and s: "fst ` set (managed_processes s) \<subseteq> fst ` set xs \<union> fst ` set (managed_processes st)"
      and b: "health_check d x s = (e, s')"
    from x have fx: "fst x \<in> fst ` set xs" by simp
    show "fst ` set (managed_processes s') \<subseteq> fst ` set xs \<union> fst ` set (managed_processes st)"
    proof
      fix a
      assume "a \<in> fst ` set (managed_processes s')"
      with health_check_effect(5) [OF b] have "a = fst x \<or> a \<in> fst ` set (managed_processes s)"
        by (simp add: subset_iff)
      with fx s show "a \<in> fst ` set xs \<union> fst ` set (managed_processes st)"
        by (auto simp: subset_iff)
    qed
  qed
  show "map_of (managed_processes st') k = map_of (managed_processes st) k" if k: "k \<notin> fst ` set xs"
  proof (rule for_each_preserves [OF assms,
          of "\<lambda>s. map_of (managed_processes s) k = map_of (managed_processes st) k"])
    show "map_of (managed_processes st) k = map_of (managed_processes st) k" ..
  next
    fix x s e s'
    assume x: "x \<in> set xs"
      and s: "map_of (managed_processes s) k = map_of (managed_processes st) k"
      and b: "health_check d x s = (e, s')"
    from x k have "k \<noteq> fst x" by blast
    from health_check_effect(6) [OF b this] s
    show "map_of (managed_processes s') k = map_of (managed_processes st) k"
      by (rule trans)
  qed
qed


lemma emit_event_simps [simp]:
  "services (emit_event e st) = services st"
  "managed_processes (emit_event e st) = managed_processes st"
  "alive (emit_event e st) = alive st"
  "next_pid (emit_event e st) = next_pid st"
  "spawned (emit_event e st) = spawned st"
  "events (emit_event e st) = events st @ [e]"
  by (simp_all add: emit_event_def)

lemma keys_filter_notin: "fst ` set (filter (\<lambda>(k, v). k \<notin> S) xs) = fst ` set xs - S"
  by force

lemma keys_filter_in: "fst ` set (filter (\<lambda>(k, v). k \<in> S) xs) = fst ` set xs \<inter> S"
  by force

lemma reconcile_services:
  assumes "reconcile ex d st = (err, st')"
  shows "services st' = filter (\<lambda>(k, v). k \<in> fst ` set d) (services st)"
proof -
  from assms obtain st1 st2 st3 where
    st1: "st1 = fold (stop_service ex)
             [p \<leftarrow> remdups (map fst (services st)). p \<notin> fst ` set d] st"
    and st2: "for_each (start_service d)
       [p \<leftarrow> remdups (map fst d). p \<notin> fst ` set (services st)] st1 = (None, st2)"
    and st3: "for_each (health_check d) (managed_processes st2) st2 = (err, st3)"
    and st': "st' = (if err = None then emit_event (Sleep MAIN_LOOP_SLEEP) st3 else st3)"
    by (rule reconcile_phases)
  from st' have "services st' = services st3" by simp
  also from st3 have "\<dots> = services st2" by (rule for_each_health_effect(1))
  also from st2 have "\<dots> = services st1" by (rule for_each_start_effect(1))
  also have "\<dots> = filter (\<lambda>(k, v). k \<in> fst ` set d) (services st)"
    unfolding st1 by (force intro!: filter_cong)
  finally show ?thesis .
qed

lemma reconcile_events_prefix:
  assumes "reconcile ex d st = (err, st')"
  shows "prefix (events st) (events st')"
proof -
  from assms obtain st1 st2 st3 where
    st1: "st1 = fold (stop_service ex)
             [p \<leftarrow> remdups (map fst (services st)). p \<notin> fst ` set d] st"
    and st2: "for_each (start_service d)
       [p \<leftarrow> remdups (map fst d). p \<notin> fst ` set (services st)] st1 = (None, st2)"
    and st3: "for_each (health_check d) (managed_processes st2) st2 = (err, st3)"
    and st': "st' = (if err = None then emit_event (Sleep MAIN_LOOP_SLEEP) st3 else st3)"
    by (rule reconcile_phases)
  have "prefix (events st) (events st1)"
    unfolding st1 using fold_stop_events [of ex _ st] by (auto simp: prefix_def)
  also from st2 have "prefix (events st1) (events st2)" by (rule for_each_start_effect(4))
  also from st3 have "prefix (events st2) (events st3)" by (rule for_each_health_effect(4))
  also from st' have "prefix (events st3) (events st')" by simp
  finally show ?thesis .
qed

lemma reconcile_removed:
  assumes rec: "reconcile ex d st = (err, st')"
    and p: "p \<in> fst ` set (services st)" "p \<notin> fst ` set d"
  shows "p \<notin> fst ` set (services st')"
    and "p \<notin> fst ` set (managed_processes st')"
    and "map_of (managed_processes st) p = Some pr \<Longrightarrow> is_alive pr st \<Longrightarrow>
           sublist [Terminate (proc_pid pr), Join (proc_pid pr) 5] (cycle_events st st')"
proof -
  let ?R = "[p \<leftarrow> remdups (map fst (services st)). p \<notin> fst ` set d]"
  let ?A = "[p \<leftarrow> remdups (map fst d). p \<notin> fst ` set (services st)]"
  from rec obtain st1 st2 st3 where
    st1: "st1 = fold (stop_service ex) ?R st"
    and st2: "for_each (start_service d) ?A st1 = (None, st2)"
    and st3: "for_each (health_check d) (managed_processes st2) st2 = (err, st3)"
    and st': "st' = (if err = None then emit_event (Sleep MAIN_LOOP_SLEEP) st3 else st3)"
    by (rule reconcile_phases)
  from p have pR: "p \<in> set ?R" by auto
  from p have pA: "p \<notin> set ?A" by auto
  have "fst ` set (services st') = fst ` set (services st) \<inter> fst ` set d"
    by (simp only: reconcile_services [OF rec] keys_filter_in)
  with p(2) show "p \<notin> fst ` set (services st')"
    by blast
  have "fst ` set (managed_processes st1) = fst ` set (managed_processes st) - set ?R"
    unfolding st1 by (simp only: fold_stop_managed keys_filter_notin)
  with pR have m1: "p \<notin> fst ` set (managed_processes st1)"
    by blast
  with for_each_start_effect(5) [OF st2] pA have m2: "p \<notin> fst ` set (managed_processes st2)"
    by blast
  with for_each_health_effect(5) [OF st3] have "p \<notin> fst ` set (managed_processes st3)"
    by blast
  with st' show "p \<notin> fst ` set (managed_processes st')" by simp
  show "sublist [Terminate (proc_pid pr), Join (proc_pid pr) 5] (cycle_events st st')"
    if mp: "map_of (managed_processes st) p = Some pr" and al: "is_alive pr st"
  proof -
    from fold_stop_signals [OF pR mp al, of ex] obtain pre post where
      e1: "events st1 = events st @ pre @ [Terminate (proc_pid pr), Join (proc_pid pr) 5] @ post"
      unfolding st1 by blast
    have "prefix (events st1) (events st2)" using st2 by (rule for_each_start_effect(4))
    also have "prefix (events st2) (events st3)" using st3 by (rule for_each_health_effect(4))
    also have "prefix (events st3) (events st')" using st' by simp
    finally obtain rest where "events st' = events st1 @ rest"
      by (auto simp: prefix_def)
    with e1 have "cycle_events st st' =
        pre @ [Terminate (proc_pid pr), Join (proc_pid pr) 5] @ (post @ rest)"
      by (simp add: cycle_events_def)
    then show ?thesis
      by (simp only: sublist_appendI)
  qed
qed

lemma reconcile_added:
  assumes rec: "reconcile ex d st = (err, st')"
    and p: "p \<in> fst ` set d" "p \<notin> fst ` set (services st)"
  shows "\<exists>pr. map_of (managed_processes st') p = Some pr \<and> next_pid st \<le> proc_pid pr \<and>
              is_alive pr st'"
proof -
  let ?R = "[p \<leftarrow> remdups (map fst (services st)). p \<notin> fst ` set d]"
  let ?A = "[p \<leftarrow> remdups (map fst d). p \<notin> fst ` set (services st)]"
  let ?Q = "\<lambda>s. (\<exists>pr. map_of (managed_processes s) p = Some pr \<and> next_pid st \<le> proc_pid pr \<and>
              is_alive pr s) \<and> next_pid st \<le> next_pid s"
  from rec obtain st1 st2 st3 where
    st1: "st1 = fold (stop_service ex) ?R st"
    and st2: "for_each (start_service d) ?A st1 = (None, st2)"
    and st3: "for_each (health_check d) (managed_processes st2) st2 = (err, st3)"
    and st': "st' = (if err = None then emit_event (Sleep MAIN_LOOP_SLEEP) st3 else st3)"
    by (rule reconcile_phases)
  from p have pA: "p \<in> set ?A" by auto
  from p(1) obtain c where c: "map_of d p = Some c"
    by (metis domD dom_map_of_conv_image_fst)
  have n1: "next_pid st \<le> next_pid st1" unfolding st1 by simp
  have Q2: "?Q st2"
  proof (rule for_each_establishes [OF st2 pA, of "\<lambda>s. next_pid st \<le> next_pid s" ?Q])
    show "next_pid st \<le> next_pid st1" by (rule n1)
  next
    fix x s e s'
    assume "next_pid st \<le> next_pid s" "start_service d x s = (e, s')"
    with start_service_effect(3) [of d x s e s'] show "next_pid st \<le> next_pid s'" by simp
  next
    fix s e s'
    assume n: "next_pid st \<le> next_pid s" and b: "start_service d p s = (e, s')"
    from start_service_ok [OF c, of s] b n show "?Q s'"
      by (auto simp: is_alive_def)
  next
    fix x s e s'
    assume Q: "?Q s" and b: "start_service d x s = (e, s')"
    show "?Q s'"
    proof (cases "x = p")
      case True
      from start_service_ok [OF c, of s] b Q True show ?thesis
        by (auto simp: is_alive_def)
    next
      case False
      then have "map_of (managed_processes s') p = map_of (managed_processes s) p"
        using start_service_effect(6) [OF b, of p] by simp
      with Q start_service_effect(2,3) [OF b] show ?thesis
        by (auto simp: is_alive_def)
    qed
  qed
  have Q3: "?Q st3"
  proof (rule for_each_preserves [OF st3, of ?Q])
    show "?Q st2" by (rule Q2)
  next
    fix x s e s'
    assume Q: "?Q s" and b: "health_check d x s = (e, s')"
    then show "?Q s'"
      by (auto simp: health_check_def start_process_def emit_event_def Let_def is_alive_def
            update_conv' split: prod.splits if_splits option.splits)
  qed
  with st' show ?thesis by (auto simp: is_alive_def)
qed


subsection \<open>Cycles that start nothing for a path\<close>

lemma quiet_forI:
  "events s' = events s @ evs \<Longrightarrow> filter (is_start_for p) evs = [] \<Longrightarrow> quiet_for p s s'"
  by (simp add: quiet_for_def cycle_events_def)

lemma quiet_for_refl: "quiet_for p s s"
  by (simp add: quiet_for_def cycle_events_def)

lemma quiet_for_trans:
  assumes "quiet_for p a b" "quiet_for p b c"
  shows "quiet_for p a c"
proof -
  from assms obtain e1 e2 where e: "events b = events a @ e1" "events c = events b @ e2"
    by (auto simp: quiet_for_def prefix_def)
  with assms have "filter (is_start_for p) e1 = []" "filter (is_start_for p) e2 = []"
    by (simp_all add: quiet_for_def cycle_events_def)
  with e show ?thesis
    by (intro quiet_forI [of c a "e1 @ e2"]) simp_all
qed

lemma quiet_stop_service: "quiet_for p s (stop_service ex q s)"
  by (auto simp: quiet_for_def cycle_events_def stop_service_def emit_event_def
        terminate_and_join_def Let_def is_start_for_def split: option.splits)

lemma quiet_fold_stop: "quiet_for p s (fold (stop_service ex) qs s)"
proof (induction qs arbitrary: s)
  case Nil
  then show ?case by (simp add: quiet_for_refl)
next
  case (Cons q qs)
  from quiet_stop_service [of p s ex q] Cons.IH [of "stop_service ex q s"]
  show ?case by (simp add: quiet_for_trans)
qed

lemma quiet_start_service:
  assumes "start_service d q s = (e, s')" "q \<noteq> p" "\<forall>(k, c) \<in> set d. cfg_path c = k"
  shows "quiet_for p s s'"
proof (cases "map_of d q")
  case None
  with assms(1) show ?thesis
    by (auto simp: start_service_def emit_event_def Let_def quiet_for_def cycle_events_def
          is_start_for_def)
next
  case (Some c)
  then have "(q, c) \<in> set d" by (rule map_of_SomeD)
  with assms(3) have "cfg_path c = q" by auto
  with assms(1,2) Some show ?thesis
    by (auto simp: start_service_def start_process_def emit_event_def Let_def quiet_for_def
          cycle_events_def is_start_for_def)
qed

lemma quiet_health_check:
  assumes "health_check d (q, pr') s = (e, s')" "q \<noteq> p \<or> is_alive pr' s"
    "\<forall>(k, c) \<in> set d. cfg_path c = k"
  shows "quiet_for p s s'"
proof (cases "q = ''_api_server'' \<or> is_alive pr' s")
  case True
  with assms(1) have "s' = s" by (auto simp: health_check_def split: if_splits)
  then show ?thesis by (simp add: quiet_for_refl)
next
  case False
  with assms(2) have qp: "q \<noteq> p" by blast
  show ?thesis
  proof (cases "map_of d q")
    case None
    with assms(1) False show ?thesis
      by (auto simp: health_check_def emit_event_def Let_def quiet_for_def cycle_events_def
            is_start_for_def)
  next
    case (Some c)
    then have "(q, c) \<in> set d" by (rule map_of_SomeD)
    with assms(3) have "cfg_path c = q" by auto
    with assms(1) qp Some False show ?thesis
      by (auto simp: health_check_def start_process_def emit_event_def Let_def quiet_for_def
            cycle_events_def is_start_for_def)
  qed
qed

lemma stop_service_keeps_alive:
  assumes "n \<in> alive s" "\<forall>pr'. map_of (managed_processes s) q = Some pr' \<longrightarrow> proc_pid pr' \<noteq> n"
  shows "n \<in> alive (stop_service ex q s)"
  using assms
  by (auto simp: stop_service_def emit_event_def terminate_and_join_def Let_def split: option.splits)

lemma fold_stop_keeps_alive:
  assumes "n \<in> alive s"
    "\<forall>q \<in> set qs. \<forall>pr'. map_of (managed_processes s) q = Some pr' \<longrightarrow> proc_pid pr' \<noteq> n"
  shows "n \<in> alive (fold (stop_service ex) qs s)"
  using assms
proof (induction qs arbitrary: s)
  case Nil
  then show ?case by simp
next
  case (Cons q qs)
  from Cons.prems have a1: "n \<in> alive (stop_service ex q s)"
    by (intro stop_service_keeps_alive) auto
  have "\<forall>q' \<in> set qs. \<forall>pr'. map_of (managed_processes (stop_service ex q s)) q' = Some pr' \<longrightarrow>
          proc_pid pr' \<noteq> n"
  proof (intro ballI allI impI)
    fix q' pr'
    assume q': "q' \<in> set qs"
      and m: "map_of (managed_processes (stop_service ex q s)) q' = Some pr'"
    from m have "q' \<noteq> q" by (auto simp: delete_conv')
    with m have "map_of (managed_processes s) q' = Some pr'" by simp
    with Cons.prems(2) q' show "proc_pid pr' \<noteq> n" by auto
  qed
  from Cons.IH [OF a1 this] show ?case by simp
qed


lemma reconcile_quiet:
  assumes rec: "reconcile ex d st = (err, st')"
    and keys: "\<forall>(k, c) \<in> set d. cfg_path c = k"
    and dist: "distinct (map fst (managed_processes st))"
    and own: "\<forall>q pr'. map_of (managed_processes st) q = Some pr' \<and> q \<noteq> p \<longrightarrow>
                proc_pid pr' \<noteq> proc_pid pr"
    and reg: "p \<in> fst ` set (services st)"
    and tracked: "map_of (managed_processes st) p = Some pr" "is_alive pr st"
  shows "quiet_for p st st'"
    and "p \<in> fst ` set d \<Longrightarrow> map_of (managed_processes st') p = Some pr \<and> is_alive pr st'"
proof -
  let ?R = "[p \<leftarrow> remdups (map fst (services st)). p \<notin> fst ` set d]"
  let ?A = "[p \<leftarrow> remdups (map fst d). p \<notin> fst ` set (services st)]"
  from rec obtain st1 st2 st3 where
    st1: "st1 = fold (stop_service ex) ?R st"
    and st2: "for_each (start_service d) ?A st1 = (None, st2)"
    and st3: "for_each (health_check d) (managed_processes st2) st2 = (err, st3)"
    and st': "st' = (if err = None then emit_event (Sleep MAIN_LOOP_SLEEP) st3 else st3)"
    by (rule reconcile_phases)
  from reg have pA: "p \<notin> set ?A" by simp
  have q1: "quiet_for p st st1"
    unfolding st1 by (rule quiet_fold_stop)
  have q2: "quiet_for p st1 st2"
  proof (rule for_each_preserves [OF st2, of "\<lambda>s. quiet_for p st1 s"])
    show "quiet_for p st1 st1" by (rule quiet_for_refl)
  next
    fix x s e s'
    assume x: "x \<in> set ?A" and q: "quiet_for p st1 s" and b: "start_service d x s = (e, s')"
    from x pA have "x \<noteq> p" by blast
    from quiet_start_service [OF b this keys] q show "quiet_for p st1 s'"
      by (blast intro: quiet_for_trans)
  qed
  have q4: "quiet_for p st3 st'"
    using st' by (auto simp: quiet_for_refl quiet_for_def cycle_events_def is_start_for_def)
  have m1: "managed_processes st1 = filter (\<lambda>(k, v). k \<notin> set ?R) (managed_processes st)"
    unfolding st1 by simp
  have d1: "distinct (map fst (managed_processes st1))"
    unfolding m1 using dist by (rule distinct_map_filter)
  have d2: "distinct (map fst (managed_processes st2))"
    using st2 d1 by (rule for_each_start_effect(7))
  have mp2: "map_of (managed_processes st2) p = map_of (managed_processes st1) p"
    using st2 pA by (rule for_each_start_effect(6))
  show main: "quiet_for p st st'" and
    "p \<in> fst ` set d \<Longrightarrow> map_of (managed_processes st') p = Some pr \<and> is_alive pr st'"
  proof -
    have "quiet_for p st2 st3 \<and>
          (p \<in> fst ` set d \<longrightarrow> map_of (managed_processes st3) p = Some pr \<and> is_alive pr st3)"
    proof (cases "p \<in> fst ` set d")
      case True
      then have pR: "p \<notin> set ?R" by simp
      with tracked(1) have t1: "map_of (managed_processes st1) p = Some pr"
        unfolding m1 by (simp add: map_of_filter_in)
      with mp2 have t2: "map_of (managed_processes st2) p = Some pr" by simp
      have "proc_pid pr \<in> alive st1"
        unfolding st1
      proof (rule fold_stop_keeps_alive)
        from tracked(2) show "proc_pid pr \<in> alive st" by (simp add: is_alive_def)
      next
        show "\<forall>q\<in>set ?R. \<forall>pr'. map_of (managed_processes st) q = Some pr' \<longrightarrow>
                proc_pid pr' \<noteq> proc_pid pr"
          using own pR by blast
      qed
      with for_each_start_effect(2) [OF st2] have a2: "proc_pid pr \<in> alive st2" by blast
      let ?J = "\<lambda>s. quiet_for p st2 s \<and> map_of (managed_processes s) p = Some pr \<and>
                   proc_pid pr \<in> alive s"
      have "?J st3"
      proof (rule for_each_preserves [OF st3, of ?J])
        from t2 a2 show "?J st2" by (simp add: quiet_for_refl)
      next
        fix x s e s'
        assume x: "x \<in> set (managed_processes st2)" and J: "?J s"
          and b: "health_check d x s = (e, s')"
        obtain q pr' where xq: "x = (q, pr')" by (cases x)
        show "?J s'"
        proof (cases "q = p")
          case True
          with x xq d2 t2 have "pr' = pr" by auto
          with J have al: "is_alive pr' s" by (simp add: is_alive_def)
          with b xq have "s' = s" by (auto simp: health_check_def split: if_splits)
          with J show ?thesis by simp
        next
          case False
          with b xq have "quiet_for p s s'"
            by (intro quiet_health_check [OF _ _ keys, of q pr' s e s']) auto
          moreover from False b xq have "map_of (managed_processes s') p = map_of (managed_processes s) p"
            using health_check_effect(6) [of d x s e s' p] by simp
          moreover from b have "alive s \<subseteq> alive s'" by (rule health_check_effect(2))
          ultimately show ?thesis using J quiet_for_trans [of p st2 s s'] by auto
        qed
      qed
      then show ?thesis by (simp add: is_alive_def)
    next
      case False
      with reg have pR: "p \<in> set ?R" by simp
      then have "p \<notin> fst ` set (managed_processes st1)"
        unfolding m1 by (simp only: keys_filter_notin) blast
      with for_each_start_effect(5) [OF st2] pA
      have n2: "p \<notin> fst ` set (managed_processes st2)" by blast
      have "quiet_for p st2 st3"
      proof (rule for_each_preserves [OF st3, of "\<lambda>s. quiet_for p st2 s"])
        show "quiet_for p st2 st2" by (rule quiet_for_refl)
      next
        fix x s e s'
        assume x: "x \<in> set (managed_processes st2)" and q: "quiet_for p st2 s"
          and b: "health_check d x s = (e, s')"
        obtain q' pr' where xq: "x = (q', pr')" by (cases x)
        with x n2 have "q' \<noteq> p" by force
        with b xq have "quiet_for p s s'"
          by (intro quiet_health_check [OF _ _ keys, of q' pr' s e s']) auto
        with q show "quiet_for p st2 s'" by (blast intro: quiet_for_trans)
      qed
      with False show ?thesis by simp
    qed
    then have q3: "quiet_for p st2 st3"
      and keep: "p \<in> fst ` set d \<Longrightarrow> map_of (managed_processes st3) p = Some pr \<and> is_alive pr st3"
      by blast+
    from q1 q2 q3 q4 show "quiet_for p st st'"
      by (blast intro: quiet_for_trans)
    from keep st' show "map_of (managed_processes st') p = Some pr \<and> is_alive pr st'"
      if "p \<in> fst ` set d" using that by (auto simp: is_alive_def)
  qed
qed


subsection \<open>A stopped process that exits in time\<close>

lemma stop_service_dead:
  assumes "map_of (managed_processes s) p = Some pr" "ex (proc_pid pr)"
  shows "proc_pid pr \<notin> alive (stop_service ex p s)"
  using assms
  by (auto simp: stop_service_def emit_event_def terminate_and_join_def Let_def is_alive_def)

lemma fold_stop_dead:
  assumes "p \<in> set qs" "map_of (managed_processes st) p = Some pr" "ex (proc_pid pr)"
  shows "proc_pid pr \<notin> alive (fold (stop_service ex) qs st)"
proof -
  from assms(1) obtain xs ys where qs: "qs = xs @ p # ys" and nx: "p \<notin> set xs"
    by (meson split_list_first)
  let ?sx = "fold (stop_service ex) xs st"
  from nx assms(2) have "map_of (managed_processes ?sx) p = Some pr"
    by (simp add: map_of_filter_in)
  with assms(3) have "proc_pid pr \<notin> alive (stop_service ex p ?sx)"
    by (rule stop_service_dead [where ex = ex, rotated])
  with fold_stop_alive_subset [of ex ys "stop_service ex p ?sx"]
  show ?thesis by (auto simp: qs)
qed

lemma health_check_fresh:
  assumes "health_check d item s = (e, s')" "n \<notin> alive s" "n < next_pid s"
  shows "n \<notin> alive s' \<and> n < next_pid s'"
  using assms
  by (auto simp: health_check_def start_process_def emit_event_def Let_def
        split: prod.splits if_splits option.splits)

lemma start_service_fresh:
  assumes "start_service d q s = (e, s')" "n \<notin> alive s" "n < next_pid s"
  shows "n \<notin> alive s' \<and> n < next_pid s'"
  using assms
  by (auto simp: start_service_def start_process_def emit_event_def Let_def
        split: option.splits)

lemma health_check_nothing_desired:
  assumes "health_check [] item s = (e, s')"
  shows "alive s' = alive s"
  using assms
  by (auto simp: health_check_def emit_event_def Let_def split: prod.splits if_splits)

lemma reconcile_removed_dead:
  assumes rec: "reconcile ex d st = (err, st')"
    and p: "p \<in> fst ` set (services st)" "p \<notin> fst ` set d"
    and pr: "map_of (managed_processes st) p = Some pr" "ex (proc_pid pr)"
    and fresh: "proc_pid pr < next_pid st \<or> d = []"
  shows "\<not> is_alive pr st'"
proof -
  let ?R = "[p \<leftarrow> remdups (map fst (services st)). p \<notin> fst ` set d]"
  let ?A = "[p \<leftarrow> remdups (map fst d). p \<notin> fst ` set (services st)]"
  from rec obtain st1 st2 st3 where
    st1: "st1 = fold (stop_service ex) ?R st"
    and st2: "for_each (start_service d) ?A st1 = (None, st2)"
    and st3: "for_each (health_check d) (managed_processes st2) st2 = (err, st3)"
    and st': "st' = (if err = None then emit_event (Sleep MAIN_LOOP_SLEEP) st3 else st3)"
    by (rule reconcile_phases)
  from p have pR: "p \<in> set ?R" by auto
  have dead1: "proc_pid pr \<notin> alive st1"
    unfolding st1 using pR pr by (rule fold_stop_dead)
  have "proc_pid pr \<notin> alive st3"
  proof (cases "d = []")
    case True
    with st2 have "st2 = st1" by simp
    have "alive st3 = alive st2"
      by (rule for_each_preserves [OF st3, of "\<lambda>s. alive s = alive st2"])
         (use True in \<open>auto dest: health_check_nothing_desired\<close>)
    with dead1 \<open>st2 = st1\<close> show ?thesis by simp
  next
    case False
    with fresh have lt: "proc_pid pr < next_pid st" by simp
    let ?I = "\<lambda>s. proc_pid pr \<notin> alive s \<and> proc_pid pr < next_pid s"
    from dead1 lt have I1: "?I st1" by (simp add: st1)
    have I2: "?I st2"
      by (rule for_each_preserves [OF st2, of ?I, OF I1]) (blast dest: start_service_fresh)
    have "?I st3"
      by (rule for_each_preserves [OF st3, of ?I, OF I2]) (blast dest: health_check_fresh)
    then show ?thesis by simp
  qed
  with st' show ?thesis by (simp add: is_alive_def)
qed


subsection \<open>A cycle in which nothing is desired\<close>

lemma map_of_filter_notin:
  "p \<notin> S \<Longrightarrow> map_of (filter (\<lambda>(k, v). k \<notin> S) xs) p = map_of xs p"
  by (induction xs) auto

lemma stop_service_terminates:
  assumes "Terminate n \<in> set (cycle_events st (stop_service ex q st))"
  shows "\<exists>pr. map_of (managed_processes st) q = Some pr \<and> proc_pid pr = n"
  using assms
  by (auto simp: stop_service_def emit_event_def terminate_and_join_def Let_def cycle_events_def
        split: option.splits if_splits)

lemma fold_stop_terminates:
  assumes "Terminate n \<in> set (cycle_events st (fold (stop_service ex) qs st))"
  shows "\<exists>q \<in> set qs. \<exists>pr. map_of (managed_processes st) q = Some pr \<and> proc_pid pr = n"
  using assms
proof (induction qs arbitrary: st)
  case Nil
  then show ?case by (simp add: cycle_events_def)
next
  case (Cons q qs)
  let ?s1 = "stop_service ex q st"
  let ?s2 = "fold (stop_service ex) qs ?s1"
  obtain e1 where e1: "events ?s1 = events st @ e1"
    using events_stop_service by blast
  obtain e2 where e2: "events ?s2 = events ?s1 @ e2"
    using fold_stop_events by blast
  from Cons.prems e1 e2 have "Terminate n \<in> set e1 \<or> Terminate n \<in> set e2"
    by (auto simp: cycle_events_def)
  then show ?case
  proof
    assume "Terminate n \<in> set e1"
    with e1 have "Terminate n \<in> set (cycle_events st ?s1)" by (simp add: cycle_events_def)
    from stop_service_terminates [OF this] show ?thesis by auto
  next
    assume "Terminate n \<in> set e2"
    with e2 have "Terminate n \<in> set (cycle_events ?s1 ?s2)" by (simp add: cycle_events_def)
    from Cons.IH [OF this] obtain q' pr where q': "q' \<in> set qs"
      and m: "map_of (managed_processes ?s1) q' = Some pr" and n: "proc_pid pr = n"
      by blast
    from m have "map_of (managed_processes st) q' = Some pr"
      by (simp add: AList.delete_conv split: if_splits)
    with q' n show ?thesis by auto
  qed
qed

lemma health_check_nothing_desired_table:
  assumes "health_check [] item s = (e, s')"
  shows "managed_processes s' = managed_processes s"
    and "\<exists>evs. events s' = events s @ evs \<and> Terminate n \<notin> set evs"
  using assms
  by (auto simp: health_check_def emit_event_def Let_def split: prod.splits if_splits)

lemma for_each_health_nothing_desired:
  assumes "for_each (health_check []) xs s = (e, s')"
  shows "managed_processes s' = managed_processes s"
    and "\<exists>evs. events s' = events s @ evs \<and> Terminate n \<notin> set evs"
proof -
  show "managed_processes s' = managed_processes s"
    by (rule for_each_preserves [OF assms, of "\<lambda>t. managed_processes t = managed_processes s"])
       (auto dest: health_check_nothing_desired_table(1))
  show "\<exists>evs. events s' = events s @ evs \<and> Terminate n \<notin> set evs"
  proof (rule for_each_preserves [OF assms,
           of "\<lambda>t. \<exists>evs. events t = events s @ evs \<and> Terminate n \<notin> set evs"])
    show "\<exists>evs. events s = events s @ evs \<and> Terminate n \<notin> set evs" by simp
  next
    fix x t e' t'
    assume t: "\<exists>evs. events t = events s @ evs \<and> Terminate n \<notin> set evs"
      and b: "health_check [] x t = (e', t')"
    from t obtain evs where evs: "events t = events s @ evs" "Terminate n \<notin> set evs" by blast
    from health_check_nothing_desired_table(2) [OF b, of n] obtain evs' where
      "events t' = events t @ evs'" "Terminate n \<notin> set evs'" by blast
    with evs have "events t' = events s @ (evs @ evs') \<and> Terminate n \<notin> set (evs @ evs')"
      by simp
    then show "\<exists>evs. events t' = events s @ evs \<and> Terminate n \<notin> set evs" by blast
  qed
qed

lemma reconcile_nothing_desired:
  assumes rec: "reconcile ex [] st = (err, st')"
  shows "p \<notin> fst ` set (services st) \<Longrightarrow>
           map_of (managed_processes st') p = map_of (managed_processes st) p"
    and "Terminate n \<in> set (cycle_events st st') \<Longrightarrow>
           \<exists>q \<in> fst ` set (services st). \<exists>pr.
              map_of (managed_processes st) q = Some pr \<and> proc_pid pr = n"
proof -
  let ?R = "[p \<leftarrow> remdups (map fst (services st)). p \<notin> fst ` set ([] :: (string \<times> service_config) list)]"
  from rec obtain st1 st2 st3 where
    st1: "st1 = fold (stop_service ex) ?R st"
    and st2: "for_each (start_service [])
       [p \<leftarrow> remdups (map fst ([] :: (string \<times> service_config) list)). p \<notin> fst ` set (services st)] st1 = (None, st2)"
    and st3: "for_each (health_check []) (managed_processes st2) st2 = (err, st3)"
    and st': "st' = (if err = None then emit_event (Sleep MAIN_LOOP_SLEEP) st3 else st3)"
    by (rule reconcile_phases)
  from st2 have s21: "st2 = st1" by simp
  have R: "set ?R = fst ` set (services st)" by simp
  from st' have m': "managed_processes st' = managed_processes st3" by simp
  note h = for_each_health_nothing_desired [OF st3]
  have m1: "managed_processes st1 = filter (\<lambda>(k, v). k \<notin> set ?R) (managed_processes st)"
    unfolding st1 by (rule fold_stop_managed)
  show "map_of (managed_processes st') p = map_of (managed_processes st) p"
    if "p \<notin> fst ` set (services st)"
  proof -
    from that R have "p \<notin> set ?R" by simp
    then have "map_of (managed_processes st1) p = map_of (managed_processes st) p"
      unfolding m1 by (rule map_of_filter_notin)
    with m' h(1) s21 show ?thesis by simp
  qed
  show "\<exists>q \<in> fst ` set (services st). \<exists>pr.
              map_of (managed_processes st) q = Some pr \<and> proc_pid pr = n"
    if t: "Terminate n \<in> set (cycle_events st st')"
  proof -
    obtain e1 where e1: "events st1 = events st @ e1"
      unfolding st1 using fold_stop_events by blast
    from h(2) [of n] s21 obtain e3 where e3: "events st3 = events st1 @ e3" "Terminate n \<notin> set e3"
      by auto
    from st' obtain e4 where e4: "events st' = events st3 @ e4" "Terminate n \<notin> set e4"
      by (cases "err = None") (auto simp: emit_event_def)
    from t e1 e3 e4 have "Terminate n \<in> set e1"
      by (auto simp: cycle_events_def)
    with e1 have "Terminate n \<in> set (cycle_events st st1)"
      by (simp add: cycle_events_def)
    then have "Terminate n \<in> set (cycle_events st (fold (stop_service ex) ?R st))"
      unfolding st1 .
    from fold_stop_terminates [OF this] R show ?thesis by blast
  qed
qed


subsection \<open>Concrete cycles\<close>

lemmas reconcile_defs =
  reconcile_def stop_removed_def stop_service_def start_service_def health_check_def
  start_process_def terminate_and_join_def emit_event_def is_alive_def Let_def
  MAIN_LOOP_SLEEP_def basename_def



lemma reconcile_running_kept:
  "reconcile ex [(''/srv/repos/a'', svc_a)] running_state =
     (None, running_state\<lparr>events := [Sleep 5]\<rparr>)"
  by (simp add: reconcile_defs running_state_def)

lemma reconcile_unregistered:
  "reconcile ex [(''/srv/repos/a'', svc_a)] (running_state\<lparr>services := []\<rparr>) =
     (None,
      \<lparr>manager_pid = 100,
       services = [],
       managed_processes =
         [(''_api_server'', \<lparr>proc_pid = 101, proc_name = ''APIServer''\<rparr>),
          (''/srv/repos/a'', \<lparr>proc_pid = 103, proc_name = ''a''\<rparr>)],
       alive = {100, 101, 102, 103, 555},
       spawned = [(102, svc_a), (103, svc_a)],
       next_pid = 104,
       events = [Log ''INFO'' ''New service for /srv/repos/a found. Starting...'',
                 Start 103 ''a'' ''https://example.test/a.git'' ''main'' ''/srv/repos/a'',
                 Sleep 5]\<rparr>)"
  by (auto simp add: reconcile_defs running_state_def svc_a_def)

lemma main_start_fresh:
  "main_start 100 (Completed ''git version 2.43.0'') = Some fresh_state"
  by (simp add: main_start_def run_command_def fresh_state_def)

lemma reconcile_fresh:
  "reconcile ex [(''/srv/repos/a'', svc_a)] fresh_state = (None, first_cycle)"
  by (auto simp add: reconcile_defs fresh_state_def svc_a_def first_cycle_def)

lemma reconcile_twice:
  "live_supervisors ''/srv/repos/a'' (snd (reconcile ex [(''/srv/repos/a'', svc_a)] first_cycle)) = [102, 103]"
  by (simp add: reconcile_defs first_cycle_def svc_a_def live_supervisors_def)

lemma supervisor_starts_clone_fails:
  "supervisor_starts clone_fails 102 first_cycle =
     first_cycle\<lparr>services := [(''/srv/repos/a'', 102)], alive := {100, 101}\<rparr>"
  by (auto simp add: supervisor_starts_def manage_service_start_def first_cycle_def svc_a_def
      clone_fails_def process_exits_def sup_run_command_def run_command_def Let_def)


lemma parse_example:
  "parse_services_file example_lib (Content [''# services'', '''', ''https://example.test/a.git'']) =
     ([], Inr [(''/srv/repos/a'', svc_a)])"
  by (simp add: parse_services_file_def parse_line_def strip_def split_def is_space_def
        startswith_def example_lib_def get_repo_name_from_url_def splitext_root_def basename_def
        path_join_def REPOS_DIR_def svc_a_def Let_def)


subsection \<open>The definitions file\<close>

lemma in_update_cases:
  "(a, b) \<in> set (AList.update k v al) \<Longrightarrow> (a, b) = (k, v) \<or> (a, b) \<in> set al"
  by (induction al) (auto split: if_splits)

lemma parse_line_keys:
  assumes "parse_line lib l acc = Inr acc'" "\<forall>(k, c) \<in> set acc. cfg_path c = k"
  shows "\<forall>(k, c) \<in> set acc'. cfg_path c = k"
  using assms
  by (auto simp: parse_line_def Let_def split: if_splits list.splits dest!: in_update_cases)

lemma parse_lines_keys:
  assumes "parse_lines lib ls acc = Inr acc'" "\<forall>(k, c) \<in> set acc. cfg_path c = k"
  shows "\<forall>(k, c) \<in> set acc'. cfg_path c = k"
  using assms
proof (induction ls arbitrary: acc)
  case Nil
  then show ?case by simp
next
  case (Cons l ls)
  then obtain acc1 where l: "parse_line lib l acc = Inr acc1"
    and ls: "parse_lines lib ls acc1 = Inr acc'"
    by (auto split: sum.splits)
  from parse_line_keys [OF l Cons.prems(2)] Cons.IH [OF ls] show ?case by blast
qed

lemma parse_services_file_keys:
  assumes "parse_services_file lib f = (evs, Inr desired)"
  shows "\<forall>(k, c) \<in> set desired. cfg_path c = k"
proof (cases f)
  case Missing
  with assms show ?thesis by (simp add: parse_services_file_def)
next
  case Unreadable
  with assms show ?thesis by (simp add: parse_services_file_def)
next
  case (Content ls)
  with assms have "parse_lines lib ls [] = Inr desired"
    by (simp add: parse_services_file_def)
  from parse_lines_keys [OF this] show ?thesis by simp
qed

lemma main_cycle_reconcile:
  assumes "parse_services_file lib f = (evs, Inr desired)"
  shows "main_cycle lib ex f st = reconcile ex desired (st\<lparr>events := events st @ evs\<rparr>)"
  using assms by (simp add: main_cycle_def)

lemma cycle_events_after_parse:
  assumes "prefix (events st @ evs) (events st')"
  shows "cycle_events st st' = evs @ cycle_events (st\<lparr>events := events st @ evs\<rparr>) st'"
  using assms by (auto simp: cycle_events_def prefix_def)

subsection \<open>The claims about the Reconciler\<close>

text \<open>
  Claim C1, as amended. In every cycle the desired set is the set of keys that
  \<open>parse_services_file\<close> reads from the definitions file, and the current set is the
  set of keys of the Status Store, not the table of started processes: after the cycle
  the Store holds exactly its former keys that are still desired; a Store key that is
  no longer desired is also dropped from the table; and for every desired key that is
  not in the Store a new process is started and entered in the table, whatever the
  table held for that key.
\<close>

theorem current_set_is_the_store_keys:
  assumes "parse_services_file lib f = (evs, Inr desired)"
    and "main_cycle lib ex f st = (err, st')"
  shows "fst ` set (services st') = fst ` set (services st) \<inter> fst ` set desired \<and>
         (\<forall>p \<in> fst ` set (services st) - fst ` set desired.
            p \<notin> fst ` set (managed_processes st')) \<and>
         (\<forall>p \<in> fst ` set desired - fst ` set (services st).
            \<exists>pr. map_of (managed_processes st') p = Some pr \<and> next_pid st \<le> proc_pid pr \<and>
                 is_alive pr st')"
proof -
  let ?st0 = "st\<lparr>events := events st @ evs\<rparr>"
  from assms have rec: "reconcile ex desired ?st0 = (err, st')"
    by (simp add: main_cycle_reconcile)
  have "fst ` set (services st') = fst ` set (services st) \<inter> fst ` set desired"
    using reconcile_services [OF rec] by (simp only: keys_filter_in) simp
  moreover have "p \<notin> fst ` set (managed_processes st')"
    if "p \<in> fst ` set (services st) - fst ` set desired" for p
    using reconcile_removed(2) [OF rec, of p] that by simp
  moreover have "\<exists>pr. map_of (managed_processes st') p = Some pr \<and> next_pid st \<le> proc_pid pr \<and>
                 is_alive pr st'"
    if "p \<in> fst ` set desired - fst ` set (services st)" for p
    using reconcile_added [OF rec, of p] that by simp
  ultimately show ?thesis by blast
qed

theorem current_set_is_the_store_keys_witness:
  "parse_services_file example_lib (Content [''# services'', '''', ''https://example.test/a.git'']) =
     ([], Inr [(''/srv/repos/a'', svc_a)]) \<and>
   ''/srv/repos/a'' \<in> fst ` set [(''/srv/repos/a'', svc_a)] - fst ` set (services (running_state\<lparr>services := []\<rparr>)) \<and>
   map_of (managed_processes (running_state\<lparr>services := []\<rparr>)) ''/srv/repos/a'' =
     Some \<lparr>proc_pid = 102, proc_name = ''a''\<rparr> \<and>
   (\<exists>pr. map_of (managed_processes
             (snd (main_cycle example_lib (\<lambda>_. True)
                (Content [''# services'', '''', ''https://example.test/a.git''])
                (running_state\<lparr>services := []\<rparr>)))) ''/srv/repos/a'' = Some pr \<and>
         103 \<le> proc_pid pr)"
proof -
  let ?f = "Content [''# services'', '''', ''https://example.test/a.git'']"
  let ?st = "running_state\<lparr>services := []\<rparr>"
  have nx: "next_pid ?st = 103" by (simp add: running_state_def)
  have mp: "map_of (managed_processes ?st) ''/srv/repos/a'' = Some \<lparr>proc_pid = 102, proc_name = ''a''\<rparr>"
    by (simp add: running_state_def)
  have "main_cycle example_lib (\<lambda>_. True) ?f ?st =
          (fst (main_cycle example_lib (\<lambda>_. True) ?f ?st),
           snd (main_cycle example_lib (\<lambda>_. True) ?f ?st))"
    by simp
  from current_set_is_the_store_keys [OF parse_example this] nx mp parse_example
  show ?thesis by (auto simp: running_state_def)
qed

theorem current_set_counterexample:
  "managed_processes running_state = managed_processes (running_state\<lparr>services := []\<rparr>) \<and>
   managed_processes (snd (reconcile (\<lambda>_. True) [(''/srv/repos/a'', svc_a)] running_state)) =
     [(''_api_server'', \<lparr>proc_pid = 101, proc_name = ''APIServer''\<rparr>),
      (''/srv/repos/a'', \<lparr>proc_pid = 102, proc_name = ''a''\<rparr>)] \<and>
   managed_processes (snd (reconcile (\<lambda>_. True) [(''/srv/repos/a'', svc_a)]
                             (running_state\<lparr>services := []\<rparr>))) =
     [(''_api_server'', \<lparr>proc_pid = 101, proc_name = ''APIServer''\<rparr>),
      (''/srv/repos/a'', \<lparr>proc_pid = 103, proc_name = ''a''\<rparr>)]"
  by (simp add: reconcile_running_kept reconcile_unregistered) (simp add: running_state_def)





text \<open>
  Claim C10, as amended. When the definitions file does not exist, \<open>parse_services_file\<close>
  returns the empty dictionary and raises nothing; the cycle that follows then treats
  every service that is in the Status Store (every path of \<^verbatim>\<open>current_paths\<close>) as
  removed: the Store is empty afterwards, none of these paths is left in the table,
  every one of them whose process was alive has had the termination signal sent to
  that process, followed by the wait of at most five seconds, and that process is not
  alive after the cycle if it exits within the wait. A path that is not in the Store is
  not treated as removed, whether the table tracks it or not: its entry in the table is
  left as it was, and the termination signal is sent to no process other than those
  that the table holds for a path of the Store.
\<close>

theorem missing_definitions_file_removes_every_service:
  assumes "main_cycle lib ex Missing st = (err, st')"
  shows "snd (parse_services_file lib Missing) = Inr [] \<and>
         services st' = [] \<and>
         (\<forall>p \<in> fst ` set (services st).
            p \<notin> fst ` set (managed_processes st') \<and>
            (\<forall>pr. map_of (managed_processes st) p = Some pr \<longrightarrow>
               (is_alive pr st \<longrightarrow>
                  sublist [Terminate (proc_pid pr), Join (proc_pid pr) 5]
                    (cycle_events st st')) \<and>
               (ex (proc_pid pr) \<longrightarrow> \<not> is_alive pr st'))) \<and>
         (\<forall>p. p \<notin> fst ` set (services st) \<longrightarrow>
            map_of (managed_processes st') p = map_of (managed_processes st) p) \<and>
         (\<forall>n. Terminate n \<in> set (cycle_events st st') \<longrightarrow>
            (\<exists>q \<in> fst ` set (services st). \<exists>pr.
               map_of (managed_processes st) q = Some pr \<and> proc_pid pr = n))"
proof -
  obtain evs where parsed: "parse_services_file lib Missing = (evs, Inr [])"
    and evs: "\<forall>n. Terminate n \<notin> set evs"
    by (simp add: parse_services_file_def)
  let ?st0 = "st\<lparr>events := events st @ evs\<rparr>"
  from assms parsed have rec: "reconcile ex [] ?st0 = (err, st')"
    by (simp add: main_cycle_reconcile)
  from reconcile_events_prefix [OF rec] have "prefix (events st @ evs) (events st')"
    by simp
  then have cyc: "cycle_events st st' = evs @ cycle_events ?st0 st'"
    by (rule cycle_events_after_parse)
  have "services st' = []"
    using reconcile_services [OF rec] by simp
  moreover have "p \<notin> fst ` set (managed_processes st')" if "p \<in> fst ` set (services st)" for p
    using reconcile_removed(2) [OF rec, of p] that by simp
  moreover have "sublist [Terminate (proc_pid pr), Join (proc_pid pr) 5] (cycle_events st st')"
    if p: "p \<in> fst ` set (services st)"
      and pr: "map_of (managed_processes st) p = Some pr" "is_alive pr st" for p pr
  proof -
    from pr(2) have "is_alive pr ?st0" by (simp add: is_alive_def)
    with reconcile_removed(3) [OF rec, of p pr] p pr(1)
    have sub: "sublist [Terminate (proc_pid pr), Join (proc_pid pr) 5] (cycle_events ?st0 st')"
      by simp
    with cyc show ?thesis
      by (simp add: sublist_append)
  qed
  moreover have "\<not> is_alive pr st'"
    if p: "p \<in> fst ` set (services st)"
      and pr: "map_of (managed_processes st) p = Some pr" "ex (proc_pid pr)" for p pr
    using reconcile_removed_dead [OF rec, of p pr] p pr by simp
  moreover have "map_of (managed_processes st') p = map_of (managed_processes st) p"
    if "p \<notin> fst ` set (services st)" for p
    using reconcile_nothing_desired(1) [OF rec, of p] that by simp
  moreover have "\<exists>q \<in> fst ` set (services st). \<exists>pr.
               map_of (managed_processes st) q = Some pr \<and> proc_pid pr = n"
    if "Terminate n \<in> set (cycle_events st st')" for n
  proof -
    from that cyc evs have "Terminate n \<in> set (cycle_events ?st0 st')" by simp
    from reconcile_nothing_desired(2) [OF rec this] show ?thesis by simp
  qed
  ultimately show ?thesis using parsed by auto
qed

theorem missing_definitions_file_removes_every_service_witness:
  "snd (parse_services_file example_lib Missing) = Inr [] \<and>
   ''/srv/repos/a'' \<in> fst ` set (services running_state) \<and>
   map_of (managed_processes running_state) ''/srv/repos/a'' =
     Some \<lparr>proc_pid = 102, proc_name = ''a''\<rparr> \<and>
   is_alive \<lparr>proc_pid = 102, proc_name = ''a''\<rparr> running_state \<and>
   services (snd (main_cycle example_lib (\<lambda>_. True) Missing running_state)) = [] \<and>
   ''/srv/repos/a'' \<notin> fst ` set (managed_processes
      (snd (main_cycle example_lib (\<lambda>_. True) Missing running_state))) \<and>
   sublist [Terminate 102, Join 102 5]
     (cycle_events running_state (snd (main_cycle example_lib (\<lambda>_. True) Missing running_state))) \<and>
   \<not> is_alive \<lparr>proc_pid = 102, proc_name = ''a''\<rparr>
       (snd (main_cycle example_lib (\<lambda>_. True) Missing running_state)) \<and>
   ''_api_server'' \<notin> fst ` set (services running_state) \<and>
   map_of (managed_processes (snd (main_cycle example_lib (\<lambda>_. True) Missing running_state)))
     ''_api_server'' = Some \<lparr>proc_pid = 101, proc_name = ''APIServer''\<rparr> \<and>
   Terminate 102 \<in> set (cycle_events running_state
      (snd (main_cycle example_lib (\<lambda>_. True) Missing running_state))) \<and>
   (\<exists>q \<in> fst ` set (services running_state). \<exists>pr.
      map_of (managed_processes running_state) q = Some pr \<and> proc_pid pr = 102)"
proof -
  let ?st' = "snd (main_cycle example_lib (\<lambda>_. True) Missing running_state)"
  have h1: "''/srv/repos/a'' \<in> fst ` set (services running_state)"
    by (simp add: running_state_def)
  have h3: "map_of (managed_processes running_state) ''/srv/repos/a'' =
     Some \<lparr>proc_pid = 102, proc_name = ''a''\<rparr>"
    by (simp add: running_state_def)
  have h4: "is_alive \<lparr>proc_pid = 102, proc_name = ''a''\<rparr> running_state"
    by (simp add: running_state_def is_alive_def)
  have h5: "''_api_server'' \<notin> fst ` set (services running_state)"
    by (simp add: running_state_def)
  have h6: "map_of (managed_processes running_state) ''_api_server'' =
     Some \<lparr>proc_pid = 101, proc_name = ''APIServer''\<rparr>"
    by (simp add: running_state_def)
  have "main_cycle example_lib (\<lambda>_. True) Missing running_state =
          (fst (main_cycle example_lib (\<lambda>_. True) Missing running_state), ?st')"
    by simp
  note inst = missing_definitions_file_removes_every_service [OF this]
  from inst have a: "snd (parse_services_file example_lib Missing) = Inr []"
    and b: "services ?st' = []"
    by blast+
  from inst h1 have c: "''/srv/repos/a'' \<notin> fst ` set (managed_processes ?st')"
    by blast
  from inst h1 h3 h4 have d: "sublist [Terminate 102, Join 102 5]
     (cycle_events running_state ?st')"
    by fastforce
  from inst h1 h3 have e: "\<not> is_alive \<lparr>proc_pid = 102, proc_name = ''a''\<rparr> ?st'"
    by fastforce
  from inst h5 have "map_of (managed_processes ?st') ''_api_server'' =
      map_of (managed_processes running_state) ''_api_server''"
    by blast
  with h6 have f: "map_of (managed_processes ?st') ''_api_server'' =
      Some \<lparr>proc_pid = 101, proc_name = ''APIServer''\<rparr>"
    by simp
  from d have g: "Terminate 102 \<in> set (cycle_events running_state ?st')"
    using set_mono_sublist [OF d] by simp
  from inst g have h: "\<exists>q \<in> fst ` set (services running_state). \<exists>pr.
      map_of (managed_processes running_state) q = Some pr \<and> proc_pid pr = 102"
    by blast
  from a b c d e f g h h1 h3 h4 h5 show ?thesis by blast
qed

lemma missing_file_unregistered:
  "main_cycle example_lib ex Missing first_cycle =
     (None,
      first_cycle\<lparr>events := events first_cycle @
         [Log ''WARNING'' ([CHR 0x27] @ ''services.txt'' @ [CHR 0x27] @
                           '' not found. No services to manage.''),
          Sleep 5]\<rparr>)"
  by (simp add: main_cycle_def parse_services_file_def SERVICES_FILE_def reconcile_defs
        first_cycle_def)

lemma missing_file_unregistered_dead:
  "main_cycle example_lib ex Missing (process_exits 102 first_cycle) =
     (Some (KeyError ''/srv/repos/a''),
      first_cycle\<lparr>alive := {100, 101},
         events := events first_cycle @
         [Log ''WARNING'' ([CHR 0x27] @ ''services.txt'' @ [CHR 0x27] @
                           '' not found. No services to manage.''),
          Log ''WARNING'' ''Process for /srv/repos/a has died unexpectedly. It will be restarted.'']\<rparr>)"
  by (auto simp add: main_cycle_def parse_services_file_def SERVICES_FILE_def reconcile_defs
        first_cycle_def process_exits_def)

lemma missing_file_stays_alive:
  "main_cycle example_lib (\<lambda>_. False) Missing running_state =
     (None,
      \<lparr>manager_pid = 100,
       services = [],
       managed_processes = [(''_api_server'', \<lparr>proc_pid = 101, proc_name = ''APIServer''\<rparr>)],
       alive = {100, 101, 102, 555},
       spawned = [(102, svc_a)],
       next_pid = 103,
       events = [Log ''WARNING'' ([CHR 0x27] @ ''services.txt'' @ [CHR 0x27] @
                                  '' not found. No services to manage.''),
                 Log ''INFO'' ''Service for /srv/repos/a removed from config. Stopping...'',
                 Terminate 102, Join 102 5,
                 Log ''INFO'' ''Process for /srv/repos/a stopped.'',
                 Sleep 5]\<rparr>)"
  by (simp add: main_cycle_def parse_services_file_def SERVICES_FILE_def reconcile_defs
        running_state_def)

theorem missing_file_counterexample:
  "main_start 100 (Completed ''git version 2.43.0'') = Some fresh_state \<and>
   reconcile (\<lambda>_. True) [(''/srv/repos/a'', svc_a)] fresh_state = (None, first_cycle) \<and>
   map_of (managed_processes first_cycle) ''/srv/repos/a'' =
     Some \<lparr>proc_pid = 102, proc_name = ''a''\<rparr> \<and>
   is_alive \<lparr>proc_pid = 102, proc_name = ''a''\<rparr> first_cycle \<and>
   fst (main_cycle example_lib (\<lambda>_. True) Missing first_cycle) = None \<and>
   map_of (managed_processes (snd (main_cycle example_lib (\<lambda>_. True) Missing first_cycle)))
     ''/srv/repos/a'' = Some \<lparr>proc_pid = 102, proc_name = ''a''\<rparr> \<and>
   is_alive \<lparr>proc_pid = 102, proc_name = ''a''\<rparr>
     (snd (main_cycle example_lib (\<lambda>_. True) Missing first_cycle)) \<and>
   cycle_events first_cycle (snd (main_cycle example_lib (\<lambda>_. True) Missing first_cycle)) =
     [Log ''WARNING'' ([CHR 0x27] @ ''services.txt'' @ [CHR 0x27] @
                       '' not found. No services to manage.''),
      Sleep 5] \<and>
   fst (main_cycle example_lib (\<lambda>_. True) Missing (process_exits 102 first_cycle)) =
     Some (KeyError ''/srv/repos/a'') \<and>
   is_alive \<lparr>proc_pid = 102, proc_name = ''a''\<rparr>
     (snd (main_cycle example_lib (\<lambda>_. False) Missing running_state))"
  unfolding missing_file_unregistered missing_file_unregistered_dead missing_file_stays_alive
    main_start_fresh reconcile_fresh
  by (simp add: cycle_events_def is_alive_def first_cycle_def)


text \<open>
  Claim C2, as amended. The table holds one process for a path. When a path is in the
  Status Store and the process that the table holds for it is alive (and is held for
  no other path), a cycle starts no process for that path; if the path is still
  desired, the table keeps that process and it is still alive after the cycle.
\<close>

theorem registered_live_supervisor_is_not_duplicated:
  assumes "reconcile ex desired st = (err, st')"
    and "\<forall>(k, c) \<in> set desired. cfg_path c = k"
    and "distinct (map fst (managed_processes st))"
    and "\<forall>q pr'. map_of (managed_processes st) q = Some pr' \<and> q \<noteq> p \<longrightarrow>
           proc_pid pr' \<noteq> proc_pid pr"
    and "p \<in> fst ` set (services st)"
    and "map_of (managed_processes st) p = Some pr"
    and "is_alive pr st"
  shows "filter (is_start_for p) (cycle_events st st') = [] \<and>
         (p \<in> fst ` set desired \<longrightarrow>
            map_of (managed_processes st') p = Some pr \<and> is_alive pr st')"
  using reconcile_quiet [OF assms] by (simp add: quiet_for_def)

theorem registered_live_supervisor_is_not_duplicated_witness:
  "distinct (map fst (managed_processes running_state)) \<and>
   ''/srv/repos/a'' \<in> fst ` set (services running_state) \<and>
   map_of (managed_processes running_state) ''/srv/repos/a'' =
     Some \<lparr>proc_pid = 102, proc_name = ''a''\<rparr> \<and>
   is_alive \<lparr>proc_pid = 102, proc_name = ''a''\<rparr> running_state \<and>
   filter (is_start_for ''/srv/repos/a'')
     (cycle_events running_state
        (snd (reconcile (\<lambda>_. True) [(''/srv/repos/a'', svc_a)] running_state))) = [] \<and>
   map_of (managed_processes
             (snd (reconcile (\<lambda>_. True) [(''/srv/repos/a'', svc_a)] running_state)))
      ''/srv/repos/a'' = Some \<lparr>proc_pid = 102, proc_name = ''a''\<rparr>"
proof -
  let ?d = "[(''/srv/repos/a'', svc_a)]"
  let ?pr = "\<lparr>proc_pid = 102, proc_name = ''a''\<rparr>"
  have h0: "reconcile (\<lambda>_. True) ?d running_state =
          (fst (reconcile (\<lambda>_. True) ?d running_state), snd (reconcile (\<lambda>_. True) ?d running_state))"
    by simp
  have h1: "\<forall>(k, c) \<in> set ?d. cfg_path c = k"
    by (simp add: svc_a_def)
  have h2: "distinct (map fst (managed_processes running_state))"
    by (simp add: running_state_def)
  have h3: "\<forall>q pr'. map_of (managed_processes running_state) q = Some pr' \<and> q \<noteq> ''/srv/repos/a'' \<longrightarrow>
           proc_pid pr' \<noteq> proc_pid ?pr"
    by (auto simp: running_state_def split: if_splits)
  have h4: "''/srv/repos/a'' \<in> fst ` set (services running_state)"
    by (simp add: running_state_def)
  have h5: "map_of (managed_processes running_state) ''/srv/repos/a'' = Some ?pr"
    by (simp add: running_state_def)
  have h6: "is_alive ?pr running_state"
    by (simp add: running_state_def is_alive_def)
  have h7: "''/srv/repos/a'' \<in> fst ` set ?d" by simp
  from registered_live_supervisor_is_not_duplicated [OF h0 h1 h2 h3 h4 h5 h6] h7
  have "filter (is_start_for ''/srv/repos/a'')
     (cycle_events running_state (snd (reconcile (\<lambda>_. True) ?d running_state))) = []"
    and "map_of (managed_processes (snd (reconcile (\<lambda>_. True) ?d running_state)))
      ''/srv/repos/a'' = Some ?pr"
    by blast+
  with h2 h4 h5 h6 show ?thesis by blast
qed

theorem store_invariant_counterexample:
  "main_start 100 (Completed ''git version 2.43.0'') = Some fresh_state \<and>
   reconcile (\<lambda>_. True) [(''/srv/repos/a'', svc_a)] fresh_state = (None, first_cycle) \<and>
   live_supervisors ''/srv/repos/a''
     (snd (reconcile (\<lambda>_. True) [(''/srv/repos/a'', svc_a)] first_cycle)) = [102, 103] \<and>
   ''/srv/repos/a'' \<in> fst ` set (services (supervisor_starts clone_fails 102 first_cycle)) \<and>
   live_supervisors ''/srv/repos/a'' (supervisor_starts clone_fails 102 first_cycle) = []"
  by (simp add: main_start_fresh reconcile_fresh reconcile_twice supervisor_starts_clone_fails)
     (simp add: live_supervisors_def first_cycle_def)


section \<open>Properties of the Supervisor\<close>

subsection \<open>Traces\<close>

lemma before_append_skip:
  "b \<notin> set xs \<Longrightarrow> a \<notin> set xs \<Longrightarrow> before a b (xs @ ys) = before a b ys"
  by (induction xs) (auto simp: before_def)

lemma pass_trace_trans:
  assumes "prefix (trace s) (trace s1)" "prefix (trace s1) (trace s')"
  shows "pass_trace s s' = pass_trace s s1 @ pass_trace s1 s'"
  using assms by (auto simp: pass_trace_def prefix_def)

lemmas sup_defs =
  handle_process_def crash_check_def apply_update_def launch_def handle_exception_def
  sup_run_command_def run_command_def service_log_def set_status_def set_script_pid_def
  set_script_to_run_def do_event_def sleep_def Let_def

subsection \<open>The update check\<close>

lemma check_updates_frame:
  assumes "check_updates env cfg s = (r, s1)"
  shows "service_status s1 = service_status s"
    and "child_process s1 = child_process s"
    and "prefix (trace s) (trace s1)"
    and "\<forall>e \<in> set (pass_trace s s1). \<not> is_action e \<and> status_history [e] = []"
  using assms
  by (auto simp: check_updates_def sup_run_command_def run_command_def Let_def pass_trace_def
        is_action_def status_history_def List.map_filter_simps
        split: run_result.splits list.splits)

lemma check_updates_result:
  assumes "check_updates env cfg s = (Returns h, s1)"
  shows "h = (command_output (rev_parse_head env) \<noteq> command_output (rev_parse_remote env) \<and>
              command_output (rev_parse_remote env) \<noteq> None)"
  using assms
  by (auto simp: check_updates_def sup_run_command_def run_command_def Let_def command_output_def
        split: run_result.splits list.splits)

lemma check_updates_fetch_fails:
  assumes "git_fetch env = CalledProcessError err"
    and "rev_parse_head env \<noteq> OtherError" "rev_parse_remote env \<noteq> OtherError"
  shows "\<exists>h s1. check_updates env cfg s = (Returns h, s1) \<and>
           sublist [Command [''git'', ''fetch''] (repo_path (service_status s)),
                    Log ''ERROR'' (''Command failed: git fetch'' @ [CHR 0x0A] @ ''Error: '' @ strip err),
                    Command [''git'', ''rev-parse'', ''HEAD''] (repo_path (service_status s))]
              (pass_trace s s1)"
  using assms
  by (auto simp: check_updates_def sup_run_command_def run_command_def Let_def pass_trace_def
        sublist_Cons_right
        split: run_result.splits list.splits)

lemma loop_iteration_after_check:
  assumes "check_updates env cfg s = (Returns h, s1)"
  shows "loop_iteration env cfg s =
           (case handle_process env cfg h s1 of
              (Raised e, s') \<Rightarrow> (Raised e, handle_exception env s')
            | other \<Rightarrow> other)"
  using assms by (simp add: loop_iteration_def loop_body_def)

lemma after_check_prefix:
  assumes "(case handle_process env cfg h s1 of
              (Raised e, s') \<Rightarrow> (Raised e, handle_exception env s')
            | other \<Rightarrow> other) = (fl, s')"
  shows "prefix (trace s1) (trace s')"
  using assms
  by (auto simp: sup_defs split: option.splits run_result.splits if_splits list.splits)

subsection \<open>A pass that has detected an update\<close>

lemma core_terminate:
  assumes "(case handle_process env cfg True s1 of
              (Raised e, s') \<Rightarrow> (Raised e, handle_exception env s')
            | other \<Rightarrow> other) = (fl, s')"
    and "child_process s1 = Some c" "\<not> child_exited env"
  shows "Terminate c \<in> set (pass_trace s1 s')"
    and "git_pull_command cfg s1 \<in> set (pass_trace s1 s') \<longrightarrow>
           before (Terminate c) (git_pull_command cfg s1) (pass_trace s1 s') \<and>
           before (Wait c) (git_pull_command cfg s1) (pass_trace s1 s') \<and>
           before (Terminate c) (Wait c) (pass_trace s1 s')"
  using assms
  by (auto simp: sup_defs pass_trace_def before_def git_pull_command_def
        split: option.splits run_result.splits if_splits list.splits)

lemma core_popen:
  assumes "(case handle_process env cfg True s1 of
              (Raised e, s') \<Rightarrow> (Raised e, handle_exception env s')
            | other \<Rightarrow> other) = (fl, s')"
    and "Popen n cmd cwd \<in> set (pass_trace s1 s')"
  shows "\<exists>out. git_pull env = Completed out"
    and "before (git_pull_command cfg s1) (Popen n cmd cwd) (pass_trace s1 s')"
  using assms
  by (auto simp: sup_defs pass_trace_def before_def git_pull_command_def
        split: option.splits run_result.splits if_splits list.splits)

lemma core_pull_fails:
  assumes "(case handle_process env cfg True s1 of
              (Raised e, s') \<Rightarrow> (Raised e, handle_exception env s')
            | other \<Rightarrow> other) = (fl, s')"
    and "command_output (git_pull env) = None" "git_pull env \<noteq> OtherError"
    and "git_pull_command cfg s1 \<in> set (pass_trace s1 s')"
  shows "fl = Continue"
    and "filter is_popen (pass_trace s1 s') = []"
    and "last (pass_trace s1 s') = Sleep GIT_CHECK_INTERVAL"
  using assms
  by (auto simp: sup_defs pass_trace_def before_def git_pull_command_def command_output_def
        is_popen_def
        split: option.splits run_result.splits if_splits list.splits)


lemma is_action_simps [simp]:
  "is_action (Terminate c)" "is_action (Wait c)" "is_action (Popen n cmd cwd)"
  "is_action (git_pull_command cfg s)"
  by (simp_all add: is_action_def git_pull_command_def)

text \<open>
  Claim C4. In a pass of the polling loop that has detected an update: if a worker is
  running, it is sent the termination signal, and the pull is issued only after that
  signal and after the wait for the worker has returned; a worker is launched only when
  the pull has succeeded, and after the pull; and when the pull fails, the pass ends
  with a wait of one interval and a \<^verbatim>\<open>continue\<close>, without a launch. So the worker
  that ran when the update was detected never runs past the pull.
\<close>

theorem update_stops_worker_before_pull:
  assumes "check_updates env cfg s = (Returns True, s1)"
    and "loop_iteration env cfg s = (fl, s')"
  shows "(\<forall>c. child_process s = Some c \<and> \<not> child_exited env \<longrightarrow>
            Terminate c \<in> set (pass_trace s s') \<and>
            (git_pull_command cfg s \<in> set (pass_trace s s') \<longrightarrow>
               before (Terminate c) (git_pull_command cfg s) (pass_trace s s') \<and>
               before (Wait c) (git_pull_command cfg s) (pass_trace s s') \<and>
               before (Terminate c) (Wait c) (pass_trace s s'))) \<and>
         (\<forall>n cmd cwd. Popen n cmd cwd \<in> set (pass_trace s s') \<longrightarrow>
            (\<exists>out. git_pull env = Completed out) \<and>
            before (git_pull_command cfg s) (Popen n cmd cwd) (pass_trace s s')) \<and>
         (command_output (git_pull env) = None \<and> git_pull env \<noteq> OtherError \<and>
          git_pull_command cfg s \<in> set (pass_trace s s') \<longrightarrow>
            fl = Continue \<and> filter is_popen (pass_trace s s') = [] \<and>
            last (pass_trace s s') = Sleep GIT_CHECK_INTERVAL)"
proof -
  let ?pull = "git_pull_command cfg s"
  let ?pre = "pass_trace s s1" and ?post = "pass_trace s1 s'"
  note fr = check_updates_frame [OF assms(1)]
  from assms have ac: "(case handle_process env cfg True s1 of
              (Raised e, s') \<Rightarrow> (Raised e, handle_exception env s')
            | other \<Rightarrow> other) = (fl, s')"
    by (simp add: loop_iteration_after_check)
  have tr: "pass_trace s s' = ?pre @ ?post"
    using fr(3) after_check_prefix [OF ac] by (rule pass_trace_trans)
  have pull1: "git_pull_command cfg s1 = ?pull"
    by (simp add: git_pull_command_def fr(1))
  have noact: "e \<notin> set ?pre" if "is_action e" for e
    using fr(4) that by blast
  have inpost: "e \<in> set (pass_trace s s') \<longleftrightarrow> e \<in> set ?post" if "is_action e" for e
    using noact [OF that] by (simp add: tr)
  have bef: "before a b (pass_trace s s') = before a b ?post" if "is_action a" "is_action b" for a b
    unfolding tr using noact [OF that(2)] noact [OF that(1)] by (rule before_append_skip)
  have part1: "Terminate c \<in> set (pass_trace s s') \<and>
            (?pull \<in> set (pass_trace s s') \<longrightarrow>
               before (Terminate c) ?pull (pass_trace s s') \<and>
               before (Wait c) ?pull (pass_trace s s') \<and>
               before (Terminate c) (Wait c) (pass_trace s s'))"
    if "child_process s = Some c" "\<not> child_exited env" for c
  proof -
    from that fr(2) have c1: "child_process s1 = Some c" by simp
    from core_terminate [OF ac c1 that(2)] show ?thesis
      by (simp add: inpost bef pull1)
  qed
  have part2: "(\<exists>out. git_pull env = Completed out) \<and>
            before ?pull (Popen n cmd cwd) (pass_trace s s')"
    if "Popen n cmd cwd \<in> set (pass_trace s s')" for n cmd cwd
  proof -
    from that have "Popen n cmd cwd \<in> set ?post" by (simp add: inpost)
    from core_popen [OF ac this] show ?thesis
      by (simp add: bef pull1)
  qed
  have part3: "fl = Continue \<and> filter is_popen (pass_trace s s') = [] \<and>
            last (pass_trace s s') = Sleep GIT_CHECK_INTERVAL"
    if "command_output (git_pull env) = None" "git_pull env \<noteq> OtherError"
      "?pull \<in> set (pass_trace s s')"
  proof -
    from that(3) have inp: "git_pull_command cfg s1 \<in> set ?post" by (simp add: inpost pull1)
    then have ne: "?post \<noteq> []" by auto
    have "filter is_popen ?pre = []"
      using fr(4) by (auto simp: filter_empty_conv is_popen_def is_action_def split: event.splits)
    with core_pull_fails [OF ac that(1,2) inp] ne show ?thesis
      by (simp add: tr)
  qed
  from part1 part2 part3 show ?thesis by blast
qed


lemmas eval_defs =
  loop_iteration_def loop_body_def check_updates_def sup_defs strip_def is_space_def
  GIT_CHECK_INTERVAL_def emit_def

lemma trim_short [simp]: "length xs \<le> MAX_LOG_ENTRIES \<Longrightarrow> trim xs = xs"
  by (simp add: trim_drop)

lemma update_pass_example:
  "loop_iteration (quiet_pass\<lparr>rev_parse_remote := Completed ''2222'', popen_pid := Some 556\<rparr>)
     svc_a sup_running =
   (Proceed,
    \<lparr>service_status =
       \<lparr>status = ''running'', url = ''https://example.test/a.git'', branch = ''main'',
        repo_path = ''/srv/repos/a'', script_to_run = Some ''app.py'', service_manager_pid = 102,
        script_pid = Some 556,
        logs = [''[2024-01-01 00:00:30] [INFO] Starting script: python app.py'',
                ''[2024-01-01 00:00:30] [INFO] New updates found. Restarting script.'',
                ''[2024-01-01 00:00:30] [INFO] Terminating running script...'',
                ''[2024-01-01 00:00:30] [INFO] Pulling latest changes...'',
                ''[2024-01-01 00:00:30] [INFO] Starting script: python app.py'']\<rparr>,
     child_process = Some 556,
     trace = [Command [''git'', ''fetch''] ''/srv/repos/a'',
              Command [''git'', ''rev-parse'', ''HEAD''] ''/srv/repos/a'',
              Command [''git'', ''rev-parse'', ''origin/main''] ''/srv/repos/a'',
              SetStatus ''updating'', Terminate 555, Wait 555,
              Command [''git'', ''pull'', ''origin'', ''main''] ''/srv/repos/a'',
              Popen 556 [''/usr/bin/python3'', ''app.py''] ''/srv/repos/a'',
              SetStatus ''running'', Sleep 30]\<rparr>)"
  by (simp add: eval_defs quiet_pass_def sup_running_def svc_a_def MAX_LOG_ENTRIES_def)

lemma update_check_example:
  "\<exists>s1. check_updates (quiet_pass\<lparr>rev_parse_remote := Completed ''2222'', popen_pid := Some 556\<rparr>)
     svc_a sup_running = (Returns True, s1)"
  by (simp add: eval_defs quiet_pass_def sup_running_def svc_a_def)

theorem update_stops_worker_before_pull_witness:
  "child_process sup_running = Some 555 \<and>
   Terminate 555 \<in> set (pass_trace sup_running
      (snd (loop_iteration (quiet_pass\<lparr>rev_parse_remote := Completed ''2222'', popen_pid := Some 556\<rparr>)
         svc_a sup_running))) \<and>
   before (Wait 555) (git_pull_command svc_a sup_running)
     (pass_trace sup_running
      (snd (loop_iteration (quiet_pass\<lparr>rev_parse_remote := Completed ''2222'', popen_pid := Some 556\<rparr>)
         svc_a sup_running))) \<and>
   before (git_pull_command svc_a sup_running)
     (Popen 556 [''/usr/bin/python3'', ''app.py''] ''/srv/repos/a'')
     (pass_trace sup_running
      (snd (loop_iteration (quiet_pass\<lparr>rev_parse_remote := Completed ''2222'', popen_pid := Some 556\<rparr>)
         svc_a sup_running)))"
proof -
  let ?env = "quiet_pass\<lparr>rev_parse_remote := Completed ''2222'', popen_pid := Some 556\<rparr>"
  let ?s' = "snd (loop_iteration ?env svc_a sup_running)"
  obtain s1 where h1: "check_updates ?env svc_a sup_running = (Returns True, s1)"
    using update_check_example by blast
  have h2: "loop_iteration ?env svc_a sup_running = (fst (loop_iteration ?env svc_a sup_running), ?s')"
    by simp
  have c: "child_process sup_running = Some 555" "\<not> child_exited ?env"
    by (simp_all add: sup_running_def quiet_pass_def)
  have pull: "git_pull_command svc_a sup_running \<in> set (pass_trace sup_running ?s')"
    and popen: "Popen 556 [''/usr/bin/python3'', ''app.py''] ''/srv/repos/a''
                  \<in> set (pass_trace sup_running ?s')"
    unfolding update_pass_example pass_trace_def git_pull_command_def
    by (simp_all add: sup_running_def svc_a_def)
  note inst = update_stops_worker_before_pull [OF h1 h2]
  from inst c pull have "Terminate 555 \<in> set (pass_trace sup_running ?s')"
    and "before (Wait 555) (git_pull_command svc_a sup_running) (pass_trace sup_running ?s')"
    by blast+
  moreover from inst popen have "before (git_pull_command svc_a sup_running)
     (Popen 556 [''/usr/bin/python3'', ''app.py''] ''/srv/repos/a'') (pass_trace sup_running ?s')"
    by blast
  ultimately show ?thesis using c(1) by blast
qed


subsection \<open>A pass that finds the worker gone\<close>












subsection \<open>The status failed\<close>

lemma handle_exception_effect:
  "status (service_status (handle_exception env s)) = ''failed''"
  "child_process (handle_exception env s) = child_process s"
  "trace (handle_exception env s) \<noteq> [] \<and>
   last (trace (handle_exception env s)) = Sleep GIT_CHECK_INTERVAL"
  by (simp_all add: sup_defs split: option.splits)






subsection \<open>A fetch that fails\<close>

lemma check_updates_fetch_not_found:
  assumes "git_fetch env = FileNotFoundError"
    and "rev_parse_head env \<noteq> OtherError" "rev_parse_remote env \<noteq> OtherError"
  shows "\<exists>h s1. check_updates env cfg s = (Returns h, s1) \<and>
           sublist [Command [''git'', ''fetch''] (repo_path (service_status s)),
                    Log ''ERROR'' ''Command not found: git. Is it installed and in your PATH?'',
                    Command [''git'', ''rev-parse'', ''HEAD''] (repo_path (service_status s))]
              (pass_trace s s1)"
  using assms
  by (auto simp: check_updates_def sup_run_command_def run_command_def Let_def pass_trace_def
        sublist_Cons_right
        split: run_result.splits list.splits)

lemma fetch_raises:
  assumes "git_fetch env = OtherError"
  shows "loop_iteration env cfg s =
           (Raised ErrorInCommand,
            handle_exception env
              (s\<lparr>trace := trace s @ [Command [''git'', ''fetch''] (repo_path (service_status s))]\<rparr>))"
  using assms
  by (simp add: loop_iteration_def loop_body_def check_updates_def sup_run_command_def
        run_command_def)

lemma handle_exception_trace:
  "trace (handle_exception env s) =
     trace s @ (case child_process s of None \<Rightarrow> [] | Some c \<Rightarrow> [Terminate c]) @
     [SetStatus ''failed'', Sleep GIT_CHECK_INTERVAL]"
  "logs (service_status (handle_exception env s)) =
     emit (logs (service_status s))
       (''['' @ asctime env @ ''] [ERROR] Unexpected error in service manager: '' @
        exception_text env)"
  by (simp_all add: sup_defs split: option.splits)

lemma fetch_raises_effect:
  assumes "git_fetch env = OtherError"
  shows "\<exists>s'. loop_iteration env cfg s = (Raised ErrorInCommand, s') \<and>
           status (service_status s') = ''failed'' \<and>
           logs (service_status s') =
             emit (logs (service_status s))
               (''['' @ asctime env @ ''] [ERROR] Unexpected error in service manager: '' @
                exception_text env) \<and>
           pass_trace s s' =
             Command [''git'', ''fetch''] (repo_path (service_status s)) #
             (case child_process s of None \<Rightarrow> [] | Some c \<Rightarrow> [Terminate c]) @
             [SetStatus ''failed'', Sleep GIT_CHECK_INTERVAL]"
  unfolding fetch_raises [OF assms]
  by (simp add: handle_exception_effect(1) handle_exception_trace pass_trace_def)

text \<open>
  Claim C9, as amended. A failure of \<^verbatim>\<open>git fetch\<close> that the command executor catches
  (git exits with a non-zero status, or the \<^verbatim>\<open>git\<close> executable is not found) is
  logged by the executor and does not end the pass: when neither hash resolution raises,
  the pass goes on to resolve the two hashes and to handle the worker. A fetch that
  raises anything else is not logged by the executor and does end the pass: no hash is
  resolved, and the handler of the loop writes the error to the log of the service,
  signals the worker if the Supervisor holds one, sets the status failed and waits one
  interval. Whatever the fetch did, whenever the update check returns, ``update
  available'' holds exactly when the local HEAD hash differs from the remote branch
  hash and the remote hash is resolvable.
\<close>

theorem fetch_failure_does_not_end_the_pass:
  "(git_fetch env = CalledProcessError err \<and> rev_parse_head env \<noteq> OtherError \<and>
    rev_parse_remote env \<noteq> OtherError \<longrightarrow>
      (\<exists>h s1. check_updates env cfg s = (Returns h, s1) \<and>
         sublist [Command [''git'', ''fetch''] (repo_path (service_status s)),
                  Log ''ERROR'' (''Command failed: git fetch'' @ [CHR 0x0A] @ ''Error: '' @ strip err),
                  Command [''git'', ''rev-parse'', ''HEAD''] (repo_path (service_status s))]
           (pass_trace s s1) \<and>
         loop_iteration env cfg s =
           (case handle_process env cfg h s1 of
              (Raised e, s') \<Rightarrow> (Raised e, handle_exception env s')
            | other \<Rightarrow> other))) \<and>
   (git_fetch env = FileNotFoundError \<and> rev_parse_head env \<noteq> OtherError \<and>
    rev_parse_remote env \<noteq> OtherError \<longrightarrow>
      (\<exists>h s1. check_updates env cfg s = (Returns h, s1) \<and>
         sublist [Command [''git'', ''fetch''] (repo_path (service_status s)),
                  Log ''ERROR'' ''Command not found: git. Is it installed and in your PATH?'',
                  Command [''git'', ''rev-parse'', ''HEAD''] (repo_path (service_status s))]
           (pass_trace s s1) \<and>
         loop_iteration env cfg s =
           (case handle_process env cfg h s1 of
              (Raised e, s') \<Rightarrow> (Raised e, handle_exception env s')
            | other \<Rightarrow> other))) \<and>
   (git_fetch env = OtherError \<longrightarrow>
      (\<exists>s'. loop_iteration env cfg s = (Raised ErrorInCommand, s') \<and>
         status (service_status s') = ''failed'' \<and>
         logs (service_status s') =
           emit (logs (service_status s))
             (''['' @ asctime env @ ''] [ERROR] Unexpected error in service manager: '' @
              exception_text env) \<and>
         pass_trace s s' =
           Command [''git'', ''fetch''] (repo_path (service_status s)) #
           (case child_process s of None \<Rightarrow> [] | Some c \<Rightarrow> [Terminate c]) @
           [SetStatus ''failed'', Sleep GIT_CHECK_INTERVAL])) \<and>
   (check_updates env cfg s = (Returns has_updates, s2) \<longrightarrow>
      has_updates =
        (command_output (rev_parse_head env) \<noteq> command_output (rev_parse_remote env) \<and>
         command_output (rev_parse_remote env) \<noteq> None))"
proof -
  have a: "\<exists>h s1. check_updates env cfg s = (Returns h, s1) \<and>
         sublist [Command [''git'', ''fetch''] (repo_path (service_status s)),
                  Log ''ERROR'' (''Command failed: git fetch'' @ [CHR 0x0A] @ ''Error: '' @ strip err),
                  Command [''git'', ''rev-parse'', ''HEAD''] (repo_path (service_status s))]
           (pass_trace s s1) \<and>
         loop_iteration env cfg s =
           (case handle_process env cfg h s1 of
              (Raised e, s') \<Rightarrow> (Raised e, handle_exception env s')
            | other \<Rightarrow> other)"
    if f: "git_fetch env = CalledProcessError err" "rev_parse_head env \<noteq> OtherError"
      "rev_parse_remote env \<noteq> OtherError"
  proof -
    from check_updates_fetch_fails [OF f, of cfg s] obtain h s1 where
      c: "check_updates env cfg s = (Returns h, s1)"
      and t: "sublist [Command [''git'', ''fetch''] (repo_path (service_status s)),
                  Log ''ERROR'' (''Command failed: git fetch'' @ [CHR 0x0A] @ ''Error: '' @ strip err),
                  Command [''git'', ''rev-parse'', ''HEAD''] (repo_path (service_status s))]
           (pass_trace s s1)"
      by blast
    from loop_iteration_after_check [OF c] c t show ?thesis by blast
  qed
  have b: "\<exists>h s1. check_updates env cfg s = (Returns h, s1) \<and>
         sublist [Command [''git'', ''fetch''] (repo_path (service_status s)),
                  Log ''ERROR'' ''Command not found: git. Is it installed and in your PATH?'',
                  Command [''git'', ''rev-parse'', ''HEAD''] (repo_path (service_status s))]
           (pass_trace s s1) \<and>
         loop_iteration env cfg s =
           (case handle_process env cfg h s1 of
              (Raised e, s') \<Rightarrow> (Raised e, handle_exception env s')
            | other \<Rightarrow> other)"
    if f: "git_fetch env = FileNotFoundError" "rev_parse_head env \<noteq> OtherError"
      "rev_parse_remote env \<noteq> OtherError"
  proof -
    from check_updates_fetch_not_found [OF f, of cfg s] obtain h s1 where
      c: "check_updates env cfg s = (Returns h, s1)"
      and t: "sublist [Command [''git'', ''fetch''] (repo_path (service_status s)),
                  Log ''ERROR'' ''Command not found: git. Is it installed and in your PATH?'',
                  Command [''git'', ''rev-parse'', ''HEAD''] (repo_path (service_status s))]
           (pass_trace s s1)"
      by blast
    from loop_iteration_after_check [OF c] c t show ?thesis by blast
  qed
  have c: "\<exists>s'. loop_iteration env cfg s = (Raised ErrorInCommand, s') \<and>
         status (service_status s') = ''failed'' \<and>
         logs (service_status s') =
           emit (logs (service_status s))
             (''['' @ asctime env @ ''] [ERROR] Unexpected error in service manager: '' @
              exception_text env) \<and>
         pass_trace s s' =
           Command [''git'', ''fetch''] (repo_path (service_status s)) #
           (case child_process s of None \<Rightarrow> [] | Some c \<Rightarrow> [Terminate c]) @
           [SetStatus ''failed'', Sleep GIT_CHECK_INTERVAL]"
    if "git_fetch env = OtherError"
    using that by (rule fetch_raises_effect)
  have d: "has_updates =
        (command_output (rev_parse_head env) \<noteq> command_output (rev_parse_remote env) \<and>
         command_output (rev_parse_remote env) \<noteq> None)"
    if "check_updates env cfg s = (Returns has_updates, s2)"
    using that by (rule check_updates_result)
  from a b c d show ?thesis by blast
qed

lemma fetch_fails_example:
  "loop_iteration (quiet_pass\<lparr>git_fetch := CalledProcessError ''could not resolve host''\<rparr>)
     svc_a sup_entering =
   (Proceed,
    \<lparr>service_status =
       \<lparr>status = ''running'', url = ''https://example.test/a.git'', branch = ''main'',
        repo_path = ''/srv/repos/a'', script_to_run = Some ''app.py'', service_manager_pid = 102,
        script_pid = Some 555,
        logs = [''[2024-01-01 00:00:30] [INFO] Starting script: python app.py'']\<rparr>,
     child_process = Some 555,
     trace = [SetStatus ''initializing'', SetStatus ''cloning'',
              Command [''git'', ''fetch''] ''/srv/repos/a'',
              Log ''ERROR'' (''Command failed: git fetch'' @ [CHR 0x0A] @
                             ''Error: could not resolve host''),
              Command [''git'', ''rev-parse'', ''HEAD''] ''/srv/repos/a'',
              Command [''git'', ''rev-parse'', ''origin/main''] ''/srv/repos/a'',
              Popen 555 [''/usr/bin/python3'', ''app.py''] ''/srv/repos/a'',
              SetStatus ''running'', Sleep 30]\<rparr>)"
  by (simp add: eval_defs quiet_pass_def sup_entering_def svc_a_def MAX_LOG_ENTRIES_def)

theorem fetch_failure_does_not_end_the_pass_witness:
  "git_fetch (quiet_pass\<lparr>git_fetch := CalledProcessError ''could not resolve host''\<rparr>) =
     CalledProcessError ''could not resolve host'' \<and>
   (\<exists>h s1. check_updates (quiet_pass\<lparr>git_fetch := CalledProcessError ''could not resolve host''\<rparr>)
              svc_a sup_entering = (Returns h, s1) \<and>
           h = (command_output (Completed ''1111'') \<noteq> command_output (Completed ''1111'') \<and>
                command_output (Completed ''1111'') \<noteq> None) \<and>
           sublist [Command [''git'', ''fetch''] ''/srv/repos/a'',
                    Log ''ERROR'' (''Command failed: git fetch'' @ [CHR 0x0A] @
                                   ''Error: could not resolve host''),
                    Command [''git'', ''rev-parse'', ''HEAD''] ''/srv/repos/a'']
             (pass_trace sup_entering s1)) \<and>
   git_fetch (quiet_pass\<lparr>git_fetch := FileNotFoundError\<rparr>) = FileNotFoundError \<and>
   (\<exists>h s1. check_updates (quiet_pass\<lparr>git_fetch := FileNotFoundError\<rparr>)
              svc_a sup_entering = (Returns h, s1) \<and>
           sublist [Command [''git'', ''fetch''] ''/srv/repos/a'',
                    Log ''ERROR'' ''Command not found: git. Is it installed and in your PATH?'',
                    Command [''git'', ''rev-parse'', ''HEAD''] ''/srv/repos/a'']
             (pass_trace sup_entering s1)) \<and>
   git_fetch (quiet_pass\<lparr>git_fetch := OtherError\<rparr>) = OtherError \<and>
   (\<exists>s'. loop_iteration (quiet_pass\<lparr>git_fetch := OtherError\<rparr>) svc_a sup_running =
            (Raised ErrorInCommand, s') \<and>
          status (service_status s') = ''failed'' \<and>
          pass_trace sup_running s' =
            [Command [''git'', ''fetch''] ''/srv/repos/a'', Terminate 555,
             SetStatus ''failed'', Sleep 30])"
proof -
  let ?env = "quiet_pass\<lparr>git_fetch := CalledProcessError ''could not resolve host''\<rparr>"
  let ?env2 = "quiet_pass\<lparr>git_fetch := FileNotFoundError\<rparr>"
  let ?env3 = "quiet_pass\<lparr>git_fetch := OtherError\<rparr>"
  have f: "git_fetch ?env = CalledProcessError ''could not resolve host''"
    "rev_parse_head ?env \<noteq> OtherError" "rev_parse_remote ?env \<noteq> OtherError"
    by (simp_all add: quiet_pass_def)
  have f2: "git_fetch ?env2 = FileNotFoundError"
    "rev_parse_head ?env2 \<noteq> OtherError" "rev_parse_remote ?env2 \<noteq> OtherError"
    by (simp_all add: quiet_pass_def)
  have f3: "git_fetch ?env3 = OtherError"
    by simp
  have vals: "repo_path (service_status sup_entering) = ''/srv/repos/a''"
    "strip ''could not resolve host'' = ''could not resolve host''"
    "rev_parse_head ?env = Completed ''1111''" "rev_parse_remote ?env = Completed ''1111''"
    by (simp_all add: sup_entering_def quiet_pass_def strip_def is_space_def)
  have vals3: "repo_path (service_status sup_running) = ''/srv/repos/a''"
    "child_process sup_running = Some 555"
    by (simp_all add: sup_running_def)
  from fetch_failure_does_not_end_the_pass
         [where env = ?env and err = "''could not resolve host''" and cfg = svc_a
            and s = sup_entering] f
  obtain h s1 where c: "check_updates ?env svc_a sup_entering = (Returns h, s1)"
    and t: "sublist [Command [''git'', ''fetch''] (repo_path (service_status sup_entering)),
                  Log ''ERROR'' (''Command failed: git fetch'' @ [CHR 0x0A] @ ''Error: '' @
                                 strip ''could not resolve host''),
                  Command [''git'', ''rev-parse'', ''HEAD''] (repo_path (service_status sup_entering))]
           (pass_trace sup_entering s1)"
    by blast
  from fetch_failure_does_not_end_the_pass
         [where env = ?env and cfg = svc_a and s = sup_entering and has_updates = h and ?s2.0 = s1] c
  have "h = (command_output (rev_parse_head ?env) \<noteq> command_output (rev_parse_remote ?env) \<and>
             command_output (rev_parse_remote ?env) \<noteq> None)"
    by blast
  moreover from t have "sublist [Command [''git'', ''fetch''] ''/srv/repos/a'',
                    Log ''ERROR'' (''Command failed: git fetch'' @ [CHR 0x0A] @
                                   ''Error: could not resolve host''),
                    Command [''git'', ''rev-parse'', ''HEAD''] ''/srv/repos/a'']
             (pass_trace sup_entering s1)"
    unfolding vals by simp
  ultimately have p1: "\<exists>h s1. check_updates ?env svc_a sup_entering = (Returns h, s1) \<and>
           h = (command_output (Completed ''1111'') \<noteq> command_output (Completed ''1111'') \<and>
                command_output (Completed ''1111'') \<noteq> None) \<and>
           sublist [Command [''git'', ''fetch''] ''/srv/repos/a'',
                    Log ''ERROR'' (''Command failed: git fetch'' @ [CHR 0x0A] @
                                   ''Error: could not resolve host''),
                    Command [''git'', ''rev-parse'', ''HEAD''] ''/srv/repos/a'']
             (pass_trace sup_entering s1)"
    using c unfolding vals by blast
  from fetch_failure_does_not_end_the_pass
         [where env = ?env2 and cfg = svc_a and s = sup_entering] f2
  obtain h2 s12 where c2: "check_updates ?env2 svc_a sup_entering = (Returns h2, s12)"
    and t2: "sublist [Command [''git'', ''fetch''] (repo_path (service_status sup_entering)),
                  Log ''ERROR'' ''Command not found: git. Is it installed and in your PATH?'',
                  Command [''git'', ''rev-parse'', ''HEAD''] (repo_path (service_status sup_entering))]
           (pass_trace sup_entering s12)"
    by blast
  then have p2: "\<exists>h s1. check_updates ?env2 svc_a sup_entering = (Returns h, s1) \<and>
           sublist [Command [''git'', ''fetch''] ''/srv/repos/a'',
                    Log ''ERROR'' ''Command not found: git. Is it installed and in your PATH?'',
                    Command [''git'', ''rev-parse'', ''HEAD''] ''/srv/repos/a'']
             (pass_trace sup_entering s1)"
    unfolding vals by blast
  from fetch_failure_does_not_end_the_pass
         [where env = ?env3 and cfg = svc_a and s = sup_running] f3
  obtain s3 where c3: "loop_iteration ?env3 svc_a sup_running = (Raised ErrorInCommand, s3)"
    and st3: "status (service_status s3) = ''failed''"
    and t3: "pass_trace sup_running s3 =
           Command [''git'', ''fetch''] (repo_path (service_status sup_running)) #
           (case child_process sup_running of None \<Rightarrow> [] | Some c \<Rightarrow> [Terminate c]) @
           [SetStatus ''failed'', Sleep GIT_CHECK_INTERVAL]"
    by blast
  from t3 have "pass_trace sup_running s3 =
            [Command [''git'', ''fetch''] ''/srv/repos/a'', Terminate 555,
             SetStatus ''failed'', Sleep 30]"
    unfolding vals3 by (simp add: GIT_CHECK_INTERVAL_def)
  with c3 st3 have p3: "\<exists>s'. loop_iteration ?env3 svc_a sup_running =
            (Raised ErrorInCommand, s') \<and>
          status (service_status s') = ''failed'' \<and>
          pass_trace sup_running s' =
            [Command [''git'', ''fetch''] ''/srv/repos/a'', Terminate 555,
             SetStatus ''failed'', Sleep 30]"
    by blast
  from p1 p2 p3 f(1) f2(1) f3 show ?thesis by blast
qed

theorem fetch_failure_counterexample:
  "fst (loop_iteration (quiet_pass\<lparr>git_fetch := CalledProcessError ''could not resolve host''\<rparr>)
          svc_a sup_entering) = Proceed \<and>
   pass_trace sup_entering
     (snd (loop_iteration (quiet_pass\<lparr>git_fetch := CalledProcessError ''could not resolve host''\<rparr>)
             svc_a sup_entering)) =
     [Command [''git'', ''fetch''] ''/srv/repos/a'',
      Log ''ERROR'' (''Command failed: git fetch'' @ [CHR 0x0A] @ ''Error: could not resolve host''),
      Command [''git'', ''rev-parse'', ''HEAD''] ''/srv/repos/a'',
      Command [''git'', ''rev-parse'', ''origin/main''] ''/srv/repos/a'',
      Popen 555 [''/usr/bin/python3'', ''app.py''] ''/srv/repos/a'',
      SetStatus ''running'', Sleep 30]"
  unfolding fetch_fails_example by (simp add: pass_trace_def sup_entering_def)

subsection \<open>The status request\<close>

lemma copy_items_status: "copy_items (status_items st) = Returns (status_items st)"
  by (simp add: status_items_def copy_value_def isinstance_def class_of_class_def none_or_def
        split: option.splits)

lemma copy_services_all:
  "copy_services svcs = Returns (map (\<lambda>(p, st). (p, PyDict (status_items st))) svcs)"
  by (induction svcs) (auto simp: copy_items_status)

lemma json_dumps_status:
  "json_dumps_items (status_items st) =
     Raises (TypeError ''Object of type ListProxy is not JSON serializable'')"
  by (simp add: status_items_def none_or_def split: option.splits)

lemma status_request_raises_for_every_store_with_a_service:
  assumes "svcs \<noteq> []"
  shows "do_GET ''/status'' mpid svcs =
     ([Send_response 200, Send_header ''Content-type'' ''application/json'', End_headers],
      Some (TypeError ''Object of type ListProxy is not JSON serializable''))"
proof -
  from assms obtain p st rest where "svcs = (p, st) # rest"
    by (cases svcs) auto
  then show ?thesis
    by (simp add: do_GET_def status_copy_def copy_services_all json_dumps_status)
qed

lemma other_paths_are_not_found:
  assumes "request_path \<noteq> ''/status''"
  shows "do_GET request_path mpid svcs =
           ([Send_response 404, End_headers, Write_bytes ''Not Found''], None)"
  using assms by (simp add: do_GET_def)


text \<open>
  Claim C6, evaluated at a Store that holds one service. The claim is that the request
  returns the JSON object, built as a copy. Here the dictionary built for the answer
  keeps the proxy of the log list (\<^verbatim>\<open>isinstance(v, list.__class__)\<close> tests for a class
  object, so no value is copied), and \<^verbatim>\<open>json.dumps\<close> raises on it after the status
  line and the headers have been sent: no JSON object is written. With an empty Store
  the answer is a JSON object, and another path is answered with 404.
\<close>

theorem status_request_with_a_service:
  "do_GET ''/status'' 100 [(''/srv/repos/a'', service_status sup_running)] =
     ([Send_response 200, Send_header ''Content-type'' ''application/json'', End_headers],
      Some (TypeError ''Object of type ListProxy is not JSON serializable'')) \<and>
   (\<exists>c. status_copy 100 [(''/srv/repos/a'', service_status sup_running)] = Returns c \<and>
        holds_proxy c) \<and>
   do_GET ''/status'' 100 [] =
     ([Send_response 200, Send_header ''Content-type'' ''application/json'', End_headers,
       Write_json (JObject [(''manager_pid'', JNumber 100),
                            (''api_url'', JString ''http://localhost:8000/status''),
                            (''services'', JObject [])])],
      None) \<and>
   do_GET ''/'' 100 [(''/srv/repos/a'', service_status sup_running)] =
     ([Send_response 404, End_headers, Write_bytes ''Not Found''], None)"
proof -
  have port: "str_nat API_PORT = ''8000''"
    by (simp add: API_PORT_def str_nat.simps)
  have copy: "status_copy 100 [(''/srv/repos/a'', service_status sup_running)] =
      Returns (PyDict
        [(''manager_pid'', PyInt 100),
         (''api_url'', PyStr ''http://localhost:8000/status''),
         (''services'',
          PyDict [(''/srv/repos/a'', PyDict (status_items (service_status sup_running)))])])"
    by (simp add: status_copy_def copy_items_status port API_HOST_def)
  have "do_GET ''/status'' 100 [(''/srv/repos/a'', service_status sup_running)] =
     ([Send_response 200, Send_header ''Content-type'' ''application/json'', End_headers],
      Some (TypeError ''Object of type ListProxy is not JSON serializable''))"
    unfolding do_GET_def copy
    by (simp add: status_items_def none_or_def sup_running_def)
  moreover have "\<exists>c. status_copy 100 [(''/srv/repos/a'', service_status sup_running)] = Returns c \<and>
        holds_proxy c"
    by (simp add: copy status_items_def)
  moreover have "do_GET ''/status'' 100 [] =
     ([Send_response 200, Send_header ''Content-type'' ''application/json'', End_headers,
       Write_json (JObject [(''manager_pid'', JNumber 100),
                            (''api_url'', JString ''http://localhost:8000/status''),
                            (''services'', JObject [])])],
      None)"
    by (simp add: do_GET_def status_copy_def port API_HOST_def)
  moreover have "do_GET ''/'' 100 [(''/srv/repos/a'', service_status sup_running)] =
     ([Send_response 404, End_headers, Write_bytes ''Not Found''], None)"
    by (simp add: do_GET_def)
  ultimately show ?thesis by blast
qed


end
